theory Spec2Isabelle
  imports Complex_Main
begin

section \<open>The sprite atlas: \<open>load_atlas\<close> (src/shmup/app.py, lines 17-48)\<close>

text \<open>
  Python floats are modelled as exact reals and Python ints as \<open>int\<close> or \<open>nat\<close>; the
  source is read as Python 3 (\<open>/\<close> is true division). Exceptions are values of
  \<open>error\<close>; \<open>NoSuchObject\<close> is raised by nothing in the source: it marks a pool position
  that holds no object, which a Python reference can never be.
\<close>

datatype error = KeyError | ValueError | ZeroDivisionError | AttributeError | NoSuchObject

record UVMapping =
  u0 :: real
  v0 :: real
  u1 :: real
  v1 :: real
  su :: real
  sv :: real

text \<open>
  A JSON object is a Python dict: an association list in insertion order, with distinct
  keys. \<open>popitem\<close> removes and returns the pair inserted last (Python 3.7 and
  later). The texture is loaded by an external collaborator, of which only the pixel
  size per texture name is used (\<open>tex_size\<close>).
\<close>

type_synonym sprite_rects = "(string \<times> real list) list"
type_synonym atlas = "(string \<times> sprite_rects) list"

fun uv_loop :: "sprite_rects \<Rightarrow> int \<Rightarrow> int \<Rightarrow> (string \<rightharpoonup> UVMapping)
    \<Rightarrow> error + (string \<rightharpoonup> UVMapping)" where
  "uv_loop [] tex_width tex_height uvm = Inr uvm"
| "uv_loop ((name, val) # rest) tex_width tex_height uvm =
     (case val of
        [x0, y0, w, h] \<Rightarrow>
          (let x1 = x0 + w; y1 = y0 + h in
           if tex_width = 0 \<or> tex_height = 0 then Inl ZeroDivisionError
           else uv_loop rest tex_width tex_height
                  (uvm(name \<mapsto>
                     \<lparr>u0 = x0 / of_int tex_width, v0 = 1 - y1 / of_int tex_height,
                      u1 = x1 / of_int tex_width, v1 = 1 - y0 / of_int tex_height,
                      su = 0.5 * w, sv = 0.5 * h\<rparr>)))
      | _ \<Rightarrow> Inl ValueError)"

definition load_atlas :: "atlas \<Rightarrow> (string \<Rightarrow> int \<times> int)
    \<Rightarrow> error + (string \<times> (string \<rightharpoonup> UVMapping))" where
  "load_atlas atlas tex_size =
     (case rev atlas of
        [] \<Rightarrow> Inl KeyError
      | (tex_name, mapping) # _ \<Rightarrow>
          (let (tex_width, tex_height) = tex_size tex_name in
           case uv_loop mapping tex_width tex_height Map.empty of
             Inl e \<Rightarrow> Inl e
           | Inr uvm \<Rightarrow> Inr (tex_name, uvm)))"

section \<open>The renderer state and the particles (src/shmup/app.py, lines 51-398)\<close>

text \<open>
  One \<open>game\<close> value is the \<open>Game\<close> widget with everything it owns. The pool
  \<open>particles\<close> is the store of particle objects: an object is identified by its
  position in the pool, so \<open>bullets\<close> (the slice \<open>self.particles[-25:]\<close>, which
  shares its objects with the pool) is a list of pool positions, and is \<open>None\<close> until
  \<open>initialize\<close> sets the attribute. A particle carries the attributes of all five
  classes; an attribute a class does not have keeps its initial value and is never
  read for that class. \<open>random()\<close> and \<open>randint\<close> draw from an arbitrary sequence
  \<open>rng\<close>, read at \<open>rpos\<close>; the fractional part of a draw is a float in \<open>[0, 1)\<close>.
\<close>

datatype kind = Star | Trail | Player | Bullet | Enemy

fun tex_name :: "kind \<Rightarrow> string" where
  "tex_name Star = ''star''"
| "tex_name Trail = ''trail''"
| "tex_name Player = ''player''"
| "tex_name Bullet = ''bullet''"
| "tex_name Enemy = ''ufo''"

record particle =
  cls :: kind
  base_i :: nat
  p_x :: real
  p_y :: real
  p_size :: real
  p_plane :: int
  p_active :: bool
  p_v :: int

record game =
  uvmap :: "string \<rightharpoonup> UVMapping"
  indices :: "nat list"
  vertices :: "real list"
  particles :: "particle list"
  bullets :: "nat list option"
  width :: real
  height :: real
  player_x :: real
  player_y :: real
  firing :: bool
  fire_delay :: real
  spawn_delay :: real
  rng :: "nat \<Rightarrow> real"
  rpos :: nat

definition vfmt :: "(string \<times> nat) list" where
  "vfmt = [(''vCenter'', 2), (''vScale'', 1), (''vPosition'', 2), (''vTexCoords0'', 2)]"

definition vsize :: nat where
  "vsize = sum_list (map snd vfmt)"

definition random01 :: "game \<Rightarrow> real \<times> game" where
  "random01 g = (frac (rng g (rpos g)), g\<lparr>rpos := rpos g + 1\<rparr>)"

definition randint :: "int \<Rightarrow> int \<Rightarrow> game \<Rightarrow> int \<times> game" where
  "randint a b g = (let (r, g1) = random01 g in (a + \<lfloor>r * of_int (b - a + 1)\<rfloor>, g1))"

definition hypot :: "real \<Rightarrow> real \<Rightarrow> real" where
  "hypot a b = sqrt (a * a + b * b)"

definition set_particle :: "nat \<Rightarrow> particle \<Rightarrow> game \<Rightarrow> game" where
  "set_particle i p g = g\<lparr>particles := (particles g)[i := p]\<rparr>"

subsection \<open>\<open>reset\<close> of each class\<close>

definition Star_reset :: "bool \<Rightarrow> particle \<Rightarrow> game \<Rightarrow> particle \<times> game" where
  "Star_reset created p g =
     (let (k, g1) = randint 1 3 g;
          (x', g2) = (if created then (let (r, g') = random01 g1 in (r * width g, g'))
                      else (width g, g1));
          (r, g3) = random01 g2
      in (p\<lparr>p_plane := k, p_x := x', p_y := r * height g, p_size := 0.1 * of_int k\<rparr>, g3))"

definition Trail_reset :: "bool \<Rightarrow> particle \<Rightarrow> game \<Rightarrow> particle \<times> game" where
  "Trail_reset created p g =
     (let (a, g1) = randint (-30) (-20) g;
          (b, g2) = randint (-10) 10 g1;
          (s, g3) = (if created then (0, g2)
                     else (let (r, g') = random01 g2 in (r + 0.6, g')))
      in (p\<lparr>p_x := player_x g + of_int a, p_y := player_y g + of_int b, p_size := s\<rparr>, g3))"

definition Player_reset :: "bool \<Rightarrow> particle \<Rightarrow> game \<Rightarrow> particle" where
  "Player_reset created p g = p\<lparr>p_x := player_x g, p_y := player_y g\<rparr>"

definition Bullet_reset :: "bool \<Rightarrow> particle \<Rightarrow> particle" where
  "Bullet_reset created p = p\<lparr>p_active := False, p_x := -100, p_y := -100\<rparr>"

text \<open>\<open>Enemy.reset\<close> ends with \<open>v = 0\<close>, an assignment to a local variable.\<close>

definition Enemy_reset :: "bool \<Rightarrow> particle \<Rightarrow> particle" where
  "Enemy_reset created p = p\<lparr>p_active := False, p_x := -100, p_y := -100\<rparr>"

definition reset :: "bool \<Rightarrow> particle \<Rightarrow> game \<Rightarrow> particle \<times> game" where
  "reset created p g =
     (case cls p of
        Star \<Rightarrow> Star_reset created p g
      | Trail \<Rightarrow> Trail_reset created p g
      | Player \<Rightarrow> (Player_reset created p g, g)
      | Bullet \<Rightarrow> (Bullet_reset created p, g)
      | Enemy \<Rightarrow> (Enemy_reset created p, g))"

definition reset_at :: "bool \<Rightarrow> nat \<Rightarrow> game \<Rightarrow> game" where
  "reset_at created i g = (let (p, g1) = reset created (particles g ! i) g in set_particle i p g1)"

subsection \<open>\<open>advance\<close> of each class\<close>

definition Star_advance :: "real \<Rightarrow> nat \<Rightarrow> game \<Rightarrow> game" where
  "Star_advance nap i g =
     (let p = particles g ! i;
          p1 = p\<lparr>p_x := p_x p - 20 * of_int (p_plane p) * nap\<rparr>
      in if p_x p1 < 0 then (let (p2, g1) = Star_reset False p1 g in set_particle i p2 g1)
         else set_particle i p1 g)"

definition Trail_advance :: "real \<Rightarrow> nat \<Rightarrow> game \<Rightarrow> game" where
  "Trail_advance nap i g =
     (let p = particles g ! i;
          p1 = p\<lparr>p_size := p_size p - nap\<rparr>
      in if p_size p1 \<le> 0.1 then (let (p2, g1) = Trail_reset False p1 g in set_particle i p2 g1)
         else set_particle i (p1\<lparr>p_x := p_x p1 - 120 * nap\<rparr>) g)"

text \<open>\<open>Player.advance = reset\<close>: the elapsed time arrives as the \<open>created\<close> argument.\<close>

definition Player_advance :: "real \<Rightarrow> nat \<Rightarrow> game \<Rightarrow> game" where
  "Player_advance nap i g = set_particle i (Player_reset (nap \<noteq> 0) (particles g ! i) g) g"

definition Bullet_advance :: "real \<Rightarrow> nat \<Rightarrow> game \<Rightarrow> game" where
  "Bullet_advance nap i g =
     (let p = particles g ! i in
      if p_active p then
        (let p1 = p\<lparr>p_x := p_x p + 250 * nap\<rparr> in
         if p_x p1 > width g then set_particle i (Bullet_reset False p1) g
         else set_particle i p1 g)
      else if firing g \<and> fire_delay g \<le> 0 then
        (set_particle i (p\<lparr>p_active := True, p_x := player_x g + 40, p_y := player_y g\<rparr>) g)
          \<lparr>fire_delay := fire_delay g + 0.3333\<rparr>
      else g)"

fun bullets_loop :: "nat list \<Rightarrow> nat \<Rightarrow> game \<Rightarrow> error + (bool \<times> game)" where
  "bullets_loop [] i g = Inr (False, g)"
| "bullets_loop (b # rest) i g =
     (if length (particles g) \<le> b then Inl NoSuchObject
      else if cls (particles g ! b) \<noteq> Bullet \<and> cls (particles g ! b) \<noteq> Enemy
        then Inl AttributeError
      else if \<not> p_active (particles g ! b) then bullets_loop rest i g
      else if hypot (p_x (particles g ! b) - p_x (particles g ! i))
                    (p_y (particles g ! b) - p_y (particles g ! i)) < 30
        then Inr (True, reset_at False b g)
      else bullets_loop rest i g)"

definition check_hit :: "nat \<Rightarrow> game \<Rightarrow> error + (bool \<times> game)" where
  "check_hit i g =
     (if hypot (player_x g - p_x (particles g ! i)) (player_y g - p_y (particles g ! i)) < 60
      then Inr (True, g)
      else (case bullets g of
              None \<Rightarrow> Inl AttributeError
            | Some bs \<Rightarrow> bullets_loop bs i g))"

text \<open>
  \<open>Enemy.advance\<close> in three parts: \<open>Enemy_move\<close> is the branch of an active Enemy after
  the hit test, \<open>Enemy_spawn\<close> the activation of an inactive one.
\<close>

definition Enemy_move :: "real \<Rightarrow> nat \<Rightarrow> game \<Rightarrow> game" where
  "Enemy_move nap i g =
     (let p = particles g ! i;
          p1 = p\<lparr>p_x := p_x p - 200 * nap\<rparr>
      in if p_x p1 < -50 then set_particle i (Enemy_reset False p1) g
         else (let p2 = p1\<lparr>p_y := p_y p1 + of_int (p_v p1) * nap\<rparr> in
               if p_y p2 \<le> 0 then set_particle i (p2\<lparr>p_v := \<bar>p_v p2\<bar>\<rparr>) g
               else if p_y p2 > height g then set_particle i (p2\<lparr>p_v := - \<bar>p_v p2\<bar>\<rparr>) g
               else set_particle i p2 g))"

definition Enemy_spawn :: "nat \<Rightarrow> game \<Rightarrow> game" where
  "Enemy_spawn i g =
     (let (r, g1) = random01 g;
          (k, g2) = randint (-100) 100 g1
      in (set_particle i
            ((particles g ! i)\<lparr>p_active := True, p_x := width g + 50, p_y := height g * r,
                                p_v := k\<rparr>) g2)
          \<lparr>spawn_delay := spawn_delay g + 1\<rparr>)"

definition Enemy_advance :: "real \<Rightarrow> nat \<Rightarrow> game \<Rightarrow> error + game" where
  "Enemy_advance nap i g =
     (if p_active (particles g ! i) then
        (case check_hit i g of
           Inl e \<Rightarrow> Inl e
         | Inr (hit, g1) \<Rightarrow>
             if hit then Inr (set_particle i (Enemy_reset False (particles g1 ! i)) g1)
             else Inr (Enemy_move nap i g1))
      else if spawn_delay g \<le> 0 then Inr (Enemy_spawn i g)
      else Inr g)"

definition advance :: "real \<Rightarrow> nat \<Rightarrow> game \<Rightarrow> error + game" where
  "advance nap i g =
     (case cls (particles g ! i) of
        Star \<Rightarrow> Inr (Star_advance nap i g)
      | Trail \<Rightarrow> Inr (Trail_advance nap i g)
      | Player \<Rightarrow> Inr (Player_advance nap i g)
      | Bullet \<Rightarrow> Inr (Bullet_advance nap i g)
      | Enemy \<Rightarrow> Enemy_advance nap i g)"

subsection \<open>\<open>Particle.update\<close> and the frame pass \<open>update_glsl\<close>\<close>

text \<open>
  \<open>range(start, stop, step)\<close> for a positive step, and the slice assignment
  \<open>xs[lo:hi] = ys\<close> for non-negative bounds: Python clamps both bounds to the length
  of the list, so a slice past the end appends.
\<close>

definition py_range :: "nat \<Rightarrow> nat \<Rightarrow> nat \<Rightarrow> nat list" where
  "py_range start stop step = map (\<lambda>m. start + m * step) [0 ..< (stop - start + step - 1) div step]"

definition slice_assign :: "'a list \<Rightarrow> nat \<Rightarrow> nat \<Rightarrow> 'a list \<Rightarrow> 'a list" where
  "slice_assign xs lo hi ys = take lo xs @ ys @ drop (max lo hi) xs"

definition Particle_update :: "nat \<Rightarrow> game \<Rightarrow> game" where
  "Particle_update i g =
     (let p = particles g ! i in
      g\<lparr>vertices :=
          foldl (\<lambda>vs k. slice_assign vs k (k + 3) [p_x p, p_y p, p_size p]) (vertices g)
            (py_range (base_i p) (base_i p + 4 * vsize) vsize)\<rparr>)"

fun update_loop :: "nat list \<Rightarrow> real \<Rightarrow> game \<Rightarrow> error + game" where
  "update_loop [] nap g = Inr g"
| "update_loop (i # rest) nap g =
     (case advance nap i g of
        Inl e \<Rightarrow> Inl e
      | Inr g1 \<Rightarrow> update_loop rest nap (Particle_update i g1))"

definition PSWidget_update_glsl :: "real \<Rightarrow> game \<Rightarrow> error + game" where
  "PSWidget_update_glsl nap g = update_loop [0 ..< length (particles g)] nap g"

definition Game_update_glsl :: "real \<times> real \<Rightarrow> real \<Rightarrow> game \<Rightarrow> error + game" where
  "Game_update_glsl mouse_pos nap g =
     (let g1 = g\<lparr>player_x := fst mouse_pos, player_y := snd mouse_pos\<rparr>;
          g2 = (if firing g1 then g1\<lparr>fire_delay := fire_delay g1 - nap\<rparr> else g1);
          g3 = g2\<lparr>spawn_delay := spawn_delay g2 - nap\<rparr>
      in PSWidget_update_glsl nap g3)"

subsection \<open>Population: \<open>make_particles\<close> and \<open>initialize\<close>\<close>

definition Particle_init :: "kind \<Rightarrow> nat \<Rightarrow> game \<Rightarrow> particle \<times> game" where
  "Particle_init Cls i g =
     reset True \<lparr>cls = Cls, base_i = 4 * i * vsize, p_x = 0, p_y = 0, p_size = 1,
                 p_plane = 1, p_active = False, p_v = 0\<rparr> g"

fun make_loop :: "kind \<Rightarrow> UVMapping \<Rightarrow> nat list \<Rightarrow> game \<Rightarrow> game" where
  "make_loop Cls uv [] g = g"
| "make_loop Cls uv (i # rest) g =
     (let j = 4 * i;
          g1 = g\<lparr>indices := indices g @ [j, j + 1, j + 2, j + 2, j + 3, j]\<rparr>;
          g2 = g1\<lparr>vertices := vertices g1 @
                 [0, 0, 1, - su uv, - sv uv, u0 uv, v1 uv,
                  0, 0, 1, su uv, - sv uv, u1 uv, v1 uv,
                  0, 0, 1, su uv, sv uv, u1 uv, v0 uv,
                  0, 0, 1, - su uv, sv uv, u0 uv, v0 uv]\<rparr>;
          (p, g3) = Particle_init Cls i g2
      in make_loop Cls uv rest (g3\<lparr>particles := particles g3 @ [p]\<rparr>))"

definition make_particles :: "kind \<Rightarrow> int \<Rightarrow> game \<Rightarrow> error + game" where
  "make_particles Cls num g =
     (let count = length (particles g) in
      case uvmap g (tex_name Cls) of
        None \<Rightarrow> Inl KeyError
      | Some uv \<Rightarrow> Inr (make_loop Cls uv [count ..< count + nat num] g))"

definition initialize :: "game \<Rightarrow> error + game" where
  "initialize g =
     (case make_particles Star 300 g of Inl e \<Rightarrow> Inl e | Inr g1 \<Rightarrow>
      case make_particles Trail 200 g1 of Inl e \<Rightarrow> Inl e | Inr g2 \<Rightarrow>
      case make_particles Player 1 g2 of Inl e \<Rightarrow> Inl e | Inr g3 \<Rightarrow>
      case make_particles Enemy 25 g3 of Inl e \<Rightarrow> Inl e | Inr g4 \<Rightarrow>
      case make_particles Bullet 25 g4 of Inl e \<Rightarrow> Inl e | Inr g5 \<Rightarrow>
        Inr (g5\<lparr>bullets := Some [length (particles g5) - 25 ..< length (particles g5)]\<rparr>))"

subsection \<open>The application: construction, input events and the clock\<close>

definition Game_new :: "(string \<rightharpoonup> UVMapping) \<Rightarrow> real \<times> real \<Rightarrow> real \<times> real \<Rightarrow> (nat \<Rightarrow> real) \<Rightarrow> game" where
  "Game_new uvm win mouse_pos r =
     \<lparr>uvmap = uvm, indices = [], vertices = [], particles = [], bullets = None,
      width = fst win, height = snd win, player_x = fst mouse_pos, player_y = snd mouse_pos,
      firing = False, fire_delay = 0, spawn_delay = 1, rng = r, rpos = 0\<rparr>"

definition on_touch_down :: "game \<Rightarrow> game" where
  "on_touch_down g = g\<lparr>firing := True, fire_delay := 0\<rparr>"

definition on_touch_up :: "game \<Rightarrow> game" where
  "on_touch_up g = g\<lparr>firing := False\<rparr>"

text \<open>
  What the event loop can deliver after \<open>on_start\<close>: a touch, a resize of the root
  widget, or a clock tick with the mouse position and the elapsed time.
\<close>

datatype event = Touch_down | Touch_up | Resize real real | Tick "real \<times> real" real

fun handle :: "event \<Rightarrow> game \<Rightarrow> error + game" where
  "handle Touch_down g = Inr (on_touch_down g)"
| "handle Touch_up g = Inr (on_touch_up g)"
| "handle (Resize w h) g = Inr (g\<lparr>width := w, height := h\<rparr>)"
| "handle (Tick mouse_pos nap) g = Game_update_glsl mouse_pos nap g"

fun run :: "event list \<Rightarrow> game \<Rightarrow> error + game" where
  "run [] g = Inr g"
| "run (ev # evs) g = (case handle ev g of Inl e \<Rightarrow> Inl e | Inr g1 \<Rightarrow> run evs g1)"

definition play :: "event list \<Rightarrow> game \<Rightarrow> error + game" where
  "play evs g = (case initialize g of Inl e \<Rightarrow> Inl e | Inr g1 \<Rightarrow> run evs g1)"

subsection \<open>The variant program in which \<open>Enemy.reset\<close> assigns \<open>self.v = 0\<close>\<close>

text \<open>
  Every function that reaches \<open>Enemy.reset\<close> is repeated with the suffix \<open>_v0\<close>; the
  only difference is the last field of \<open>Enemy_reset_v0\<close>.
\<close>

definition Enemy_reset_v0 :: "bool \<Rightarrow> particle \<Rightarrow> particle" where
  "Enemy_reset_v0 created p = p\<lparr>p_active := False, p_x := -100, p_y := -100, p_v := 0\<rparr>"

definition reset_v0 :: "bool \<Rightarrow> particle \<Rightarrow> game \<Rightarrow> particle \<times> game" where
  "reset_v0 created p g =
     (case cls p of
        Star \<Rightarrow> Star_reset created p g
      | Trail \<Rightarrow> Trail_reset created p g
      | Player \<Rightarrow> (Player_reset created p g, g)
      | Bullet \<Rightarrow> (Bullet_reset created p, g)
      | Enemy \<Rightarrow> (Enemy_reset_v0 created p, g))"

definition reset_at_v0 :: "bool \<Rightarrow> nat \<Rightarrow> game \<Rightarrow> game" where
  "reset_at_v0 created i g =
     (let (p, g1) = reset_v0 created (particles g ! i) g in set_particle i p g1)"

fun bullets_loop_v0 :: "nat list \<Rightarrow> nat \<Rightarrow> game \<Rightarrow> error + (bool \<times> game)" where
  "bullets_loop_v0 [] i g = Inr (False, g)"
| "bullets_loop_v0 (b # rest) i g =
     (if length (particles g) \<le> b then Inl NoSuchObject
      else if cls (particles g ! b) \<noteq> Bullet \<and> cls (particles g ! b) \<noteq> Enemy
        then Inl AttributeError
      else if \<not> p_active (particles g ! b) then bullets_loop_v0 rest i g
      else if hypot (p_x (particles g ! b) - p_x (particles g ! i))
                    (p_y (particles g ! b) - p_y (particles g ! i)) < 30
        then Inr (True, reset_at_v0 False b g)
      else bullets_loop_v0 rest i g)"

definition check_hit_v0 :: "nat \<Rightarrow> game \<Rightarrow> error + (bool \<times> game)" where
  "check_hit_v0 i g =
     (if hypot (player_x g - p_x (particles g ! i)) (player_y g - p_y (particles g ! i)) < 60
      then Inr (True, g)
      else (case bullets g of
              None \<Rightarrow> Inl AttributeError
            | Some bs \<Rightarrow> bullets_loop_v0 bs i g))"

definition Enemy_move_v0 :: "real \<Rightarrow> nat \<Rightarrow> game \<Rightarrow> game" where
  "Enemy_move_v0 nap i g =
     (let p = particles g ! i;
          p1 = p\<lparr>p_x := p_x p - 200 * nap\<rparr>
      in if p_x p1 < -50 then set_particle i (Enemy_reset_v0 False p1) g
         else (let p2 = p1\<lparr>p_y := p_y p1 + of_int (p_v p1) * nap\<rparr> in
               if p_y p2 \<le> 0 then set_particle i (p2\<lparr>p_v := \<bar>p_v p2\<bar>\<rparr>) g
               else if p_y p2 > height g then set_particle i (p2\<lparr>p_v := - \<bar>p_v p2\<bar>\<rparr>) g
               else set_particle i p2 g))"

definition Enemy_advance_v0 :: "real \<Rightarrow> nat \<Rightarrow> game \<Rightarrow> error + game" where
  "Enemy_advance_v0 nap i g =
     (if p_active (particles g ! i) then
        (case check_hit_v0 i g of
           Inl e \<Rightarrow> Inl e
         | Inr (hit, g1) \<Rightarrow>
             if hit then Inr (set_particle i (Enemy_reset_v0 False (particles g1 ! i)) g1)
             else Inr (Enemy_move_v0 nap i g1))
      else if spawn_delay g \<le> 0 then Inr (Enemy_spawn i g)
      else Inr g)"

definition advance_v0 :: "real \<Rightarrow> nat \<Rightarrow> game \<Rightarrow> error + game" where
  "advance_v0 nap i g =
     (case cls (particles g ! i) of
        Star \<Rightarrow> Inr (Star_advance nap i g)
      | Trail \<Rightarrow> Inr (Trail_advance nap i g)
      | Player \<Rightarrow> Inr (Player_advance nap i g)
      | Bullet \<Rightarrow> Inr (Bullet_advance nap i g)
      | Enemy \<Rightarrow> Enemy_advance_v0 nap i g)"

fun update_loop_v0 :: "nat list \<Rightarrow> real \<Rightarrow> game \<Rightarrow> error + game" where
  "update_loop_v0 [] nap g = Inr g"
| "update_loop_v0 (i # rest) nap g =
     (case advance_v0 nap i g of
        Inl e \<Rightarrow> Inl e
      | Inr g1 \<Rightarrow> update_loop_v0 rest nap (Particle_update i g1))"

definition PSWidget_update_glsl_v0 :: "real \<Rightarrow> game \<Rightarrow> error + game" where
  "PSWidget_update_glsl_v0 nap g = update_loop_v0 [0 ..< length (particles g)] nap g"

definition Game_update_glsl_v0 :: "real \<times> real \<Rightarrow> real \<Rightarrow> game \<Rightarrow> error + game" where
  "Game_update_glsl_v0 mouse_pos nap g =
     (let g1 = g\<lparr>player_x := fst mouse_pos, player_y := snd mouse_pos\<rparr>;
          g2 = (if firing g1 then g1\<lparr>fire_delay := fire_delay g1 - nap\<rparr> else g1);
          g3 = g2\<lparr>spawn_delay := spawn_delay g2 - nap\<rparr>
      in PSWidget_update_glsl_v0 nap g3)"

definition Particle_init_v0 :: "kind \<Rightarrow> nat \<Rightarrow> game \<Rightarrow> particle \<times> game" where
  "Particle_init_v0 Cls i g =
     reset_v0 True \<lparr>cls = Cls, base_i = 4 * i * vsize, p_x = 0, p_y = 0, p_size = 1,
                    p_plane = 1, p_active = False, p_v = 0\<rparr> g"

fun make_loop_v0 :: "kind \<Rightarrow> UVMapping \<Rightarrow> nat list \<Rightarrow> game \<Rightarrow> game" where
  "make_loop_v0 Cls uv [] g = g"
| "make_loop_v0 Cls uv (i # rest) g =
     (let j = 4 * i;
          g1 = g\<lparr>indices := indices g @ [j, j + 1, j + 2, j + 2, j + 3, j]\<rparr>;
          g2 = g1\<lparr>vertices := vertices g1 @
                 [0, 0, 1, - su uv, - sv uv, u0 uv, v1 uv,
                  0, 0, 1, su uv, - sv uv, u1 uv, v1 uv,
                  0, 0, 1, su uv, sv uv, u1 uv, v0 uv,
                  0, 0, 1, - su uv, sv uv, u0 uv, v0 uv]\<rparr>;
          (p, g3) = Particle_init_v0 Cls i g2
      in make_loop_v0 Cls uv rest (g3\<lparr>particles := particles g3 @ [p]\<rparr>))"

definition make_particles_v0 :: "kind \<Rightarrow> int \<Rightarrow> game \<Rightarrow> error + game" where
  "make_particles_v0 Cls num g =
     (let count = length (particles g) in
      case uvmap g (tex_name Cls) of
        None \<Rightarrow> Inl KeyError
      | Some uv \<Rightarrow> Inr (make_loop_v0 Cls uv [count ..< count + nat num] g))"

definition initialize_v0 :: "game \<Rightarrow> error + game" where
  "initialize_v0 g =
     (case make_particles_v0 Star 300 g of Inl e \<Rightarrow> Inl e | Inr g1 \<Rightarrow>
      case make_particles_v0 Trail 200 g1 of Inl e \<Rightarrow> Inl e | Inr g2 \<Rightarrow>
      case make_particles_v0 Player 1 g2 of Inl e \<Rightarrow> Inl e | Inr g3 \<Rightarrow>
      case make_particles_v0 Enemy 25 g3 of Inl e \<Rightarrow> Inl e | Inr g4 \<Rightarrow>
      case make_particles_v0 Bullet 25 g4 of Inl e \<Rightarrow> Inl e | Inr g5 \<Rightarrow>
        Inr (g5\<lparr>bullets := Some [length (particles g5) - 25 ..< length (particles g5)]\<rparr>))"

fun handle_v0 :: "event \<Rightarrow> game \<Rightarrow> error + game" where
  "handle_v0 Touch_down g = Inr (on_touch_down g)"
| "handle_v0 Touch_up g = Inr (on_touch_up g)"
| "handle_v0 (Resize w h) g = Inr (g\<lparr>width := w, height := h\<rparr>)"
| "handle_v0 (Tick mouse_pos nap) g = Game_update_glsl_v0 mouse_pos nap g"

fun run_v0 :: "event list \<Rightarrow> game \<Rightarrow> error + game" where
  "run_v0 [] g = Inr g"
| "run_v0 (ev # evs) g = (case handle_v0 ev g of Inl e \<Rightarrow> Inl e | Inr g1 \<Rightarrow> run_v0 evs g1)"

definition play_v0 :: "event list \<Rightarrow> game \<Rightarrow> error + game" where
  "play_v0 evs g = (case initialize_v0 g of Inl e \<Rightarrow> Inl e | Inr g1 \<Rightarrow> run_v0 evs g1)"

subsection \<open>Predicates of the properties\<close>

text \<open>
  \<open>pool_ok\<close>: the layout that \<open>initialize\<close> builds. Every particle owns the 28 scalars
  from its \<open>base_i\<close>, the buffer holds exactly those, and \<open>bullets\<close> names Bullet objects
  that stand after every Enemy of the pool.
\<close>

definition pool_ok :: "game \<Rightarrow> bool" where
  "pool_ok g \<longleftrightarrow>
     length (vertices g) = 4 * vsize * length (particles g) \<and>
     map base_i (particles g) = map (\<lambda>i. 4 * i * vsize) [0 ..< length (particles g)] \<and>
     (case bullets g of
        None \<Rightarrow> False
      | Some bs \<Rightarrow>
          list_all (\<lambda>b. b < length (particles g) \<and> cls (particles g ! b) = Bullet \<and>
                        Enemy \<notin> set (map cls (drop b (particles g)))) bs)"

text \<open>
  \<open>synced\<close>: in each of the four vertex records of every particle, the first three
  scalars are the particle's \<open>x\<close>, \<open>y\<close> and \<open>size\<close>.
\<close>

definition synced_particle :: "real list \<Rightarrow> particle \<Rightarrow> bool" where
  "synced_particle vs p \<longleftrightarrow>
     list_all (\<lambda>m. take 3 (drop (base_i p + m * vsize) vs) = [p_x p, p_y p, p_size p]) [0 ..< 4]"

definition synced :: "game \<Rightarrow> bool" where
  "synced g \<longleftrightarrow> list_all (synced_particle (vertices g)) (particles g)"

text \<open>\<open>forget_v\<close>: the state without the field \<open>v\<close> of its particles.\<close>

definition forget_v :: "game \<Rightarrow> game" where
  "forget_v g = g\<lparr>particles := map (\<lambda>p. p\<lparr>p_v := 0\<rparr>) (particles g)\<rparr>"

text \<open>
  \<open>layout\<close>: what a frame leaves alone: the size of the vertex buffer, the index
  buffer, \<open>bullets\<close>, and the class and buffer slice of every pooled particle.
  \<open>built\<close>: the part of \<open>pool_ok\<close> that holds while the pool is being populated.
\<close>

definition layout :: "game \<Rightarrow> nat \<times> nat list \<times> nat list option \<times> kind list \<times> nat list" where
  "layout g = (length (vertices g), indices g, bullets g, map cls (particles g), map base_i (particles g))"

definition built :: "game \<Rightarrow> bool" where
  "built g \<longleftrightarrow> length (vertices g) = 28 * length (particles g) \<and>
     map base_i (particles g) = map (\<lambda>i. 28 * i) [0 ..< length (particles g)]"

text \<open>
  \<open>psim\<close> and \<open>sim\<close>: two particles, and two games, that differ at most in the field
  \<open>v\<close> of Enemy objects that are not active.
\<close>

definition psim :: "particle \<Rightarrow> particle \<Rightarrow> bool" where
  "psim p q \<longleftrightarrow> q = p\<lparr>p_v := p_v q\<rparr> \<and> (p_v q = p_v p \<or> (cls p = Enemy \<and> \<not> p_active p))"

definition sim :: "game \<Rightarrow> game \<Rightarrow> bool" where
  "sim g h \<longleftrightarrow> h = g\<lparr>particles := particles h\<rparr> \<and> list_all2 psim (particles g) (particles h)"

subsection \<open>Concrete states of the examples\<close>

text \<open>
  \<open>star_atlas\<close>: a new game whose atlas is the one of the scenario for \<open>load_atlas\<close>;
  \<open>five_sprites\<close>: an atlas with the five sprites of the game.
  \<open>duel pos\<close>: the collision scenario, one active Enemy with \<open>v = 50\<close> and one active
  Bullet, both at \<open>(100, 50)\<close>, with the player at \<open>pos\<close>. \<open>idle_duel\<close>: the same pool
  with both particles reset, the fire button held and both cooldowns run below zero.
  \<open>swapped_duel\<close>: the pool of \<open>duel (400, 300)\<close> with the Bullet before the Enemy, a
  pool that \<open>initialize\<close> never builds. \<open>lone_star\<close>: a single Star of plane 2 at
  \<open>x = 0\<close>.
\<close>

definition star_atlas :: game where
  "star_atlas =
     Game_new [''star'' \<mapsto> \<lparr>u0 = 0, v0 = 0.9, u1 = 0.1, v1 = 1, su = 5, sv = 5\<rparr>]
       (800, 600) (0, 0) (\<lambda>_. 0)"

definition duel :: "real \<times> real \<Rightarrow> game" where
  "duel pos =
     \<lparr>uvmap = Map.empty, indices = [0, 1, 2, 2, 3, 0, 4, 5, 6, 6, 7, 4],
      vertices = replicate 56 0,
      particles =
        [\<lparr>cls = Enemy, base_i = 0, p_x = 100, p_y = 50, p_size = 1, p_plane = 1,
          p_active = True, p_v = 50\<rparr>,
         \<lparr>cls = Bullet, base_i = 28, p_x = 100, p_y = 50, p_size = 1, p_plane = 1,
          p_active = True, p_v = 0\<rparr>],
      bullets = Some [1],
      width = 800, height = 600, player_x = fst pos, player_y = snd pos,
      firing = False, fire_delay = 0, spawn_delay = 1, rng = (\<lambda>_. 0), rpos = 0\<rparr>"

definition idle_duel :: game where
  "idle_duel =
     (duel (400, 300))
       \<lparr>particles := [Enemy_reset False (particles (duel (400, 300)) ! 0),
                      Bullet_reset False (particles (duel (400, 300)) ! 1)],
        firing := True, fire_delay := - 1 / 60, spawn_delay := - 1 / 2\<rparr>"

definition five_sprites :: "string \<rightharpoonup> UVMapping" where
  "five_sprites =
     [''star'' \<mapsto> \<lparr>u0 = 0, v0 = 0.9, u1 = 0.1, v1 = 1, su = 5, sv = 5\<rparr>,
      ''trail'' \<mapsto> \<lparr>u0 = 0.1, v0 = 0.9, u1 = 0.2, v1 = 1, su = 5, sv = 5\<rparr>,
      ''player'' \<mapsto> \<lparr>u0 = 0.2, v0 = 0.8, u1 = 0.4, v1 = 1, su = 10, sv = 10\<rparr>,
      ''ufo'' \<mapsto> \<lparr>u0 = 0.4, v0 = 0.8, u1 = 0.6, v1 = 1, su = 10, sv = 10\<rparr>,
      ''bullet'' \<mapsto> \<lparr>u0 = 0.6, v0 = 0.9, u1 = 0.7, v1 = 1, su = 5, sv = 5\<rparr>]"

definition swapped_duel :: game where
  "swapped_duel =
     \<lparr>uvmap = Map.empty, indices = [0, 1, 2, 2, 3, 0, 4, 5, 6, 6, 7, 4],
      vertices = replicate 56 0,
      particles =
        [\<lparr>cls = Bullet, base_i = 0, p_x = 100, p_y = 50, p_size = 1, p_plane = 1,
          p_active = True, p_v = 0\<rparr>,
         \<lparr>cls = Enemy, base_i = 28, p_x = 100, p_y = 50, p_size = 1, p_plane = 1,
          p_active = True, p_v = 50\<rparr>],
      bullets = Some [0],
      width = 800, height = 600, player_x = 400, player_y = 300,
      firing = False, fire_delay = 0, spawn_delay = 1, rng = (\<lambda>_. 0), rpos = 0\<rparr>"


section \<open>Properties of \<open>load_atlas\<close>\<close>

lemma length4_cases: "length (val::real list) = 4 \<Longrightarrow> \<exists>a b c d. val = [a, b, c, d]"
  by (cases val; simp; rename_tac x xs; case_tac xs; simp; rename_tac y ys; case_tac ys; simp;
      rename_tac z zs; case_tac zs; simp)

lemma uv_loop_Inr_iff:
  "(\<exists>r. uv_loop m tw th uvm = Inr r) \<longleftrightarrow>
     (\<forall>val \<in> snd ` set m. length val = 4) \<and> (m = [] \<or> (tw \<noteq> 0 \<and> th \<noteq> 0))"
proof (induction m arbitrary: uvm)
  case Nil
  show ?case by simp
next
  case (Cons a m)
  obtain name val where a: "a = (name, val)" by (cases a)
  show ?case
  proof (cases "length val = 4")
    case True
    then obtain x0 y0 w h where v: "val = [x0, y0, w, h]" using length4_cases by blast
    show ?thesis using Cons.IH
      by (cases "m = []") (auto simp: a v Let_def)
  next
    case False
    then have "uv_loop (a # m) tw th uvm = Inl ValueError"
      by (auto simp: a split: list.splits)
    with False show ?thesis by (simp add: a)
  qed
qed

lemma uv_loop_other:
  "uv_loop m tw th uvm = Inr r \<Longrightarrow> name \<notin> fst ` set m \<Longrightarrow> r name = uvm name"
proof (induction m arbitrary: uvm)
  case Nil
  then show ?case by simp
next
  case (Cons a m)
  obtain n val where a: "a = (n, val)" by (cases a)
  from Cons.prems show ?case
    by (auto simp: a Let_def split: list.splits if_splits dest!: Cons.IH)
qed

lemma uv_loop_entry:
  "uv_loop m tw th uvm = Inr r \<Longrightarrow> distinct (map fst m) \<Longrightarrow> (name, [x0, y0, w, h]) \<in> set m \<Longrightarrow>
   r name = Some \<lparr>u0 = x0 / of_int tw, v0 = 1 - (y0 + h) / of_int th,
                  u1 = (x0 + w) / of_int tw, v1 = 1 - y0 / of_int th, su = w / 2, sv = h / 2\<rparr>"
proof (induction m arbitrary: uvm)
  case Nil
  then show ?case by simp
next
  case (Cons a m)
  obtain n val where a: "a = (n, val)" by (cases a)
  show ?case
  proof (cases "(name, [x0, y0, w, h]) = a")
    case True
    with Cons.prems a have "uv_loop m tw th (uvm(name \<mapsto> \<lparr>u0 = x0 / of_int tw, v0 = 1 - (y0 + h) / of_int th,
                  u1 = (x0 + w) / of_int tw, v1 = 1 - y0 / of_int th, su = 0.5 * w, sv = 0.5 * h\<rparr>)) = Inr r"
      and "name \<notin> fst ` set m"
      by (auto simp: Let_def split: if_splits)
    from uv_loop_other[OF this] show ?thesis by simp
  next
    case False
    with Cons.prems a show ?thesis
      by (auto simp: Let_def split: list.splits if_splits dest!: Cons.IH)
  qed
qed

text \<open>
  Claim C1. For a manifest whose last top-level entry is \<open>(tname, mapping)\<close>, a
  texture of pixel size \<open>(W, H)\<close> with \<open>W, H > 0\<close>, and every sprite entry
  \<open>(name, [x0, y0, w, h])\<close> of \<open>mapping\<close> (a dict: its keys are distinct, and every
  value unpacks into four numbers), \<open>load_atlas\<close> returns a table that maps \<open>name\<close> to
  exactly \<open>u0 = x0/W\<close>, \<open>u1 = (x0+w)/W\<close>, \<open>v0 = 1-(y0+h)/H\<close>, \<open>v1 = 1-y0/H\<close>,
  \<open>su = w/2\<close>, \<open>sv = h/2\<close>. The witness is the scenario of the specification:
  \<open>{"tex.png": {"star": [0,0,10,10]}}\<close> with a texture of \<open>(100, 100)\<close> gives
  \<open>UVMapping(0.0, 0.9, 0.1, 1.0, 5.0, 5.0)\<close>.
\<close>

theorem load_atlas_uv:
  assumes "atlas \<noteq> []" and "last atlas = (tname, mapping)"
    and "tex_size tname = (W, H)" and "0 < W" and "0 < H"
    and "distinct (map fst mapping)"
    and "\<forall>val \<in> snd ` set mapping. length val = 4"
    and "(name, [x0, y0, w, h]) \<in> set mapping"
  shows "\<exists>uvm. load_atlas atlas tex_size = Inr (tname, uvm) \<and>
           uvm name = Some \<lparr>u0 = x0 / of_int W, v0 = 1 - (y0 + h) / of_int H,
                             u1 = (x0 + w) / of_int W, v1 = 1 - y0 / of_int H,
                             su = w / 2, sv = h / 2\<rparr>"
proof -
  from assms(1,2) obtain rest where r: "rev atlas = (tname, mapping) # rest"
    by (cases atlas rule: rev_cases) auto
  from assms(4,5,7) uv_loop_Inr_iff[of mapping W H Map.empty]
  obtain uvm where u: "uv_loop mapping W H Map.empty = Inr uvm" by auto
  from uv_loop_entry[OF u assms(6) assms(8)] u r assms(3)
  show ?thesis by (simp add: load_atlas_def)
qed

theorem load_atlas_uv_witness:
  "\<exists>uvm. load_atlas [(''tex.png'', [(''star'', [0, 0, 10, 10])])] (\<lambda>_. (100, 100))
            = Inr (''tex.png'', uvm) \<and>
         uvm ''star'' = Some \<lparr>u0 = 0, v0 = 0.9, u1 = 0.1, v1 = 1, su = 5, sv = 5\<rparr>"
  using load_atlas_uv[of "[(''tex.png'', [(''star'', [0, 0, 10, 10])])]" "''tex.png''"
      "[(''star'', [0, 0, 10, 10])]" "\<lambda>_. (100, 100)" 100 100 "''star''" 0 0 10 10]
  by simp

text \<open>
  Claim C5 says that the atlas mapper fails with \<open>InvalidAtlas\<close> on an empty manifest,
  on a rectangle of non-positive width or height, on a rectangle outside the texture and
  on a manifest with more than one top-level entry. \<open>load_atlas\<close> validates nothing of
  this. The counterexample is a manifest with two top-level entries whose last entry
  holds a rectangle of width \<open>-10\<close> and height \<open>0\<close> that starts at \<open>(90, 95)\<close> in a
  \<open>100 \<times> 100\<close> texture: the result is a mapping.
\<close>

theorem load_atlas_counterexample:
  "load_atlas [(''a.png'', [(''star'', [0, 0, 10, 10])]), (''tex.png'', [(''star'', [90, 95, -10, 0])])]
      (\<lambda>_. (100, 100))
   = Inr (''tex.png'', [''star'' \<mapsto> \<lparr>u0 = 0.9, v0 = 0.05, u1 = 0.8, v1 = 0.05, su = -5, sv = 0\<rparr>])"
  by (simp add: load_atlas_def)

text \<open>
  Claim C5 as amended. \<open>load_atlas\<close> fails on an empty manifest, with \<open>KeyError\<close> and
  before any mapping is built. On a non-empty manifest it uses the last top-level entry
  and returns a mapping exactly when every sprite value has four components and, if
  there is a sprite at all, neither texture dimension is zero: the sign and size of a
  rectangle, its position in the texture and the number of top-level entries make no
  difference.
\<close>

theorem load_atlas_failures:
  "load_atlas [] tex_size = Inl KeyError \<and>
   (atlas \<noteq> [] \<longrightarrow>
      ((\<exists>r. load_atlas atlas tex_size = Inr r) \<longleftrightarrow>
         (\<forall>val \<in> snd ` set (snd (last atlas)). length val = 4) \<and>
         (snd (last atlas) = [] \<or>
            (fst (tex_size (fst (last atlas))) \<noteq> 0 \<and> snd (tex_size (fst (last atlas))) \<noteq> 0))))"
proof (intro conjI impI)
  show "load_atlas [] tex_size = Inl KeyError" by (simp add: load_atlas_def)
next
  assume "atlas \<noteq> []"
  then obtain rest tname mapping where r: "rev atlas = (tname, mapping) # rest"
    and l: "last atlas = (tname, mapping)"
    by (cases atlas rule: rev_cases) auto
  obtain tw th where t: "tex_size tname = (tw, th)" by (cases "tex_size tname")
  have "(\<exists>r. load_atlas atlas tex_size = Inr r) \<longleftrightarrow> (\<exists>uvm. uv_loop mapping tw th Map.empty = Inr uvm)"
    by (auto simp: load_atlas_def r t split: sum.splits)
  then show "(\<exists>r. load_atlas atlas tex_size = Inr r) \<longleftrightarrow>
         (\<forall>val \<in> snd ` set (snd (last atlas)). length val = 4) \<and>
         (snd (last atlas) = [] \<or>
            (fst (tex_size (fst (last atlas))) \<noteq> 0 \<and> snd (tex_size (fst (last atlas))) \<noteq> 0))"
    by (simp add: uv_loop_Inr_iff l t)
qed

theorem load_atlas_failures_witness:
  "\<exists>r. load_atlas [(''a.png'', []), (''tex.png'', [(''star'', [90, 95, -10, 0]), (''ufo'', [0, 0, 500, 500])])]
      (\<lambda>_. (100, 100)) = Inr r"
  using load_atlas_failures[of "\<lambda>_. (100, 100)"
      "[(''a.png'', []), (''tex.png'', [(''star'', [90, 95, -10, 0]), (''ufo'', [0, 0, 500, 500])])]"]
  by simp

section \<open>Properties of population: \<open>make_particles\<close>\<close>

lemma vsize_eq [simp]: "vsize = 7"
  by (simp add: vsize_def vfmt_def)

lemma reset_game: "\<exists>n. snd (reset created p g) = g\<lparr>rpos := n\<rparr>"
  by (cases "cls p")
     (auto simp: reset_def Star_reset_def Trail_reset_def random01_def randint_def Let_def
        split: prod.splits intro: exI[of _ "rpos g"])

lemma reset_cls [simp]: "cls (fst (reset created p g)) = cls p"
  by (cases "cls p")
     (auto simp: reset_def Star_reset_def Trail_reset_def Player_reset_def Bullet_reset_def
        Enemy_reset_def random01_def randint_def Let_def split: prod.splits)

lemma reset_base_i [simp]: "base_i (fst (reset created p g)) = base_i p"
  by (cases "cls p")
     (auto simp: reset_def Star_reset_def Trail_reset_def Player_reset_def Bullet_reset_def
        Enemy_reset_def random01_def randint_def Let_def split: prod.splits)

lemma make_loop_buffers:
  "vertices (make_loop Cls uv js g) =
     vertices g @ concat (map (\<lambda>i. [0, 0, 1, - su uv, - sv uv, u0 uv, v1 uv,
                                     0, 0, 1, su uv, - sv uv, u1 uv, v1 uv,
                                     0, 0, 1, su uv, sv uv, u1 uv, v0 uv,
                                     0, 0, 1, - su uv, sv uv, u0 uv, v0 uv]) js) \<and>
   indices (make_loop Cls uv js g) =
     indices g @ concat (map (\<lambda>i. [4 * i, 4 * i + 1, 4 * i + 2, 4 * i + 2, 4 * i + 3, 4 * i]) js) \<and>
   length (particles (make_loop Cls uv js g)) = length (particles g) + length js"
proof (induction js arbitrary: g)
  case Nil
  show ?case by simp
next
  case (Cons i js)
  define g2 where "g2 = g\<lparr>indices := indices g @ [4 * i, 4 * i + 1, 4 * i + 2, 4 * i + 2, 4 * i + 3, 4 * i],
      vertices := vertices g @ [0, 0, 1, - su uv, - sv uv, u0 uv, v1 uv,
                                     0, 0, 1, su uv, - sv uv, u1 uv, v1 uv,
                                     0, 0, 1, su uv, sv uv, u1 uv, v0 uv,
                                     0, 0, 1, - su uv, sv uv, u0 uv, v0 uv]\<rparr>"
  obtain n where n: "snd (Particle_init Cls i g2) = g2\<lparr>rpos := n\<rparr>"
    unfolding Particle_init_def using reset_game by blast
  define G where "G = (g2\<lparr>rpos := n\<rparr>)\<lparr>particles := particles g2 @ [fst (Particle_init Cls i g2)]\<rparr>"
  have step: "make_loop Cls uv (i # js) g = make_loop Cls uv js G"
    using n by (simp add: Let_def split_beta G_def g2_def)
  have G: "vertices G = vertices g @ [0, 0, 1, - su uv, - sv uv, u0 uv, v1 uv,
                                     0, 0, 1, su uv, - sv uv, u1 uv, v1 uv,
                                     0, 0, 1, su uv, sv uv, u1 uv, v0 uv,
                                     0, 0, 1, - su uv, sv uv, u0 uv, v0 uv]"
    "indices G = indices g @ [4 * i, 4 * i + 1, 4 * i + 2, 4 * i + 2, 4 * i + 3, 4 * i]"
    "length (particles G) = length (particles g) + 1"
    by (simp_all add: G_def g2_def)
  show ?case
    unfolding step using Cons.IH[of G] by (simp add: G)
qed

text \<open>
  Claim C2 says that the vertices of a new quad have center and scale initialised to
  zero. \<open>make_particles\<close> writes \<open>0, 0, 1\<close>: the scale is one. The counterexample
  allocates one Star quad in a new game and reads the buffer back.
\<close>

theorem make_particles_scale_counterexample:
  "map_sum id vertices (make_particles Star 1 star_atlas) =
     Inr [0, 0, 1, -5, -5, 0, 1,
          0, 0, 1, 5, -5, 0.1, 1,
          0, 0, 1, 5, 5, 0.1, 0.9,
          0, 0, 1, -5, 5, 0, 0.9]"
  by (simp add: make_particles_def star_atlas_def Game_new_def Particle_init_def reset_def
      Star_reset_def random01_def randint_def Let_def)

text \<open>
  Claim C2 as amended. For a sprite \<open>uv\<close> of the atlas and a count \<open>num\<close>,
  \<open>make_particles\<close> appends \<open>nat num\<close> copies of the four vertex records
  \<open>(0, 0, 1, \<mp>su, \<mp>sv, u, v)\<close>, in the order top-left, top-right, bottom-right,
  bottom-left, with center zero and scale one, that is \<open>28 * num\<close> scalars, and six
  indices \<open>(j, j+1, j+2, j+2, j+3, j)\<close> for each quad, where \<open>j = 4 * i\<close> for the pool
  position \<open>i\<close> of the new particle. When the buffer holds the 28 scalars of each pooled
  particle, the new indices name only the new vertices.
\<close>

theorem make_particles_appends:
  assumes "uvmap g (tex_name Cls) = Some uv"
    and "length (vertices g) = 4 * vsize * length (particles g)"
  shows "\<exists>g'. make_particles Cls num g = Inr g' \<and>
           vertices g' = vertices g @ concat (replicate (nat num)
              [0, 0, 1, - su uv, - sv uv, u0 uv, v1 uv,
               0, 0, 1, su uv, - sv uv, u1 uv, v1 uv,
               0, 0, 1, su uv, sv uv, u1 uv, v0 uv,
               0, 0, 1, - su uv, sv uv, u0 uv, v0 uv]) \<and>
           indices g' = indices g @ concat (map (\<lambda>i. [4 * i, 4 * i + 1, 4 * i + 2, 4 * i + 2, 4 * i + 3, 4 * i])
              [length (particles g) ..< length (particles g) + nat num]) \<and>
           length (vertices g') = length (vertices g) + 4 * vsize * nat num \<and>
           length (indices g') = length (indices g) + 6 * nat num \<and>
           (\<forall>j \<in> set (drop (length (indices g)) (indices g')).
              length (vertices g) div vsize \<le> j \<and> j < length (vertices g') div vsize)"
proof -
  define js where "js = [length (particles g) ..< length (particles g) + nat num]"
  define g' where "g' = make_loop Cls uv js g"
  have mp: "make_particles Cls num g = Inr g'"
    using assms(1) by (simp add: make_particles_def g'_def js_def Let_def)
  note b = make_loop_buffers[of Cls uv js g, folded g'_def]
  have len: "length js = nat num" by (simp add: js_def)
  have v: "vertices g' = vertices g @ concat (replicate (nat num)
              [0, 0, 1, - su uv, - sv uv, u0 uv, v1 uv,
               0, 0, 1, su uv, - sv uv, u1 uv, v1 uv,
               0, 0, 1, su uv, sv uv, u1 uv, v0 uv,
               0, 0, 1, - su uv, sv uv, u0 uv, v0 uv])"
    using b len by (simp add: map_replicate_const)
  have i: "indices g' = indices g @ concat (map (\<lambda>i. [4 * i, 4 * i + 1, 4 * i + 2, 4 * i + 2, 4 * i + 3, 4 * i]) js)"
    using b by simp
  have lv: "length (vertices g') = length (vertices g) + 4 * vsize * nat num"
    unfolding v by (simp add: length_concat sum_list_replicate)
  have li: "length (indices g') = length (indices g) + 6 * nat num"
    unfolding i using len by (simp add: length_concat comp_def sum_list_triv)
  have rng: "\<forall>j \<in> set (drop (length (indices g)) (indices g')).
              length (vertices g) div vsize \<le> j \<and> j < length (vertices g') div vsize"
    unfolding lv assms(2) unfolding i by (auto simp: js_def)
  show ?thesis using mp v i lv li rng unfolding js_def by blast
qed

theorem make_particles_appends_witness:
  "\<exists>g'. make_particles Star 2 star_atlas = Inr g' \<and>
      vertices g' = [0, 0, 1, -5, -5, 0, 1, 0, 0, 1, 5, -5, 0.1, 1,
                     0, 0, 1, 5, 5, 0.1, 0.9, 0, 0, 1, -5, 5, 0, 0.9,
                     0, 0, 1, -5, -5, 0, 1, 0, 0, 1, 5, -5, 0.1, 1,
                     0, 0, 1, 5, 5, 0.1, 0.9, 0, 0, 1, -5, 5, 0, 0.9] \<and>
      indices g' = [0, 1, 2, 2, 3, 0, 4, 5, 6, 6, 7, 4]"
  using make_particles_appends[of star_atlas Star
      "\<lparr>u0 = 0, v0 = 0.9, u1 = 0.1, v1 = 1, su = 5, sv = 5\<rparr>" 2]
  by (simp add: star_atlas_def Game_new_def numeral_2_eq_2 upt_conv_Cons) blast

section \<open>Properties of single particles\<close>

lemma hypot_less_iff [simp]: "0 \<le> c \<Longrightarrow> hypot a b < c \<longleftrightarrow> a * a + b * b < c * c"
proof -
  assume c: "0 \<le> c"
  have "sqrt (a * a + b * b) < c \<longleftrightarrow> sqrt (a * a + b * b) < sqrt (c * c)"
    using c by simp
  also have "\<dots> \<longleftrightarrow> a * a + b * b < c * c"
    by (rule real_sqrt_less_iff)
  finally show ?thesis by (simp add: hypot_def)
qed

text \<open>
  Claim C6 says that in the collision scenario with the player in body range the
  Bullet is reset together with the Enemy. \<open>check_hit\<close> returns at the body check,
  before it looks at the bullets: the Enemy is reset, the Bullet stays active at
  \<open>(100, 50)\<close>.
\<close>

theorem body_hit_counterexample:
  "map_sum id (\<lambda>g. map (\<lambda>p. (cls p, p_active p, p_x p, p_y p)) (particles g))
     (Enemy_advance (1/100) 0 (duel (100, 50)))
   = Inr [(Enemy, False, -100, -100), (Bullet, True, 100, 50)]"
  by (simp add: Enemy_advance_def check_hit_def duel_def Enemy_reset_def set_particle_def)

lemma bullets_loop_first:
  assumes "\<forall>c \<in> set pre. c < length (particles g) \<and> (cls (particles g ! c) = Bullet \<or> cls (particles g ! c) = Enemy) \<and>
             (p_active (particles g ! c) \<longrightarrow>
                \<not> hypot (p_x (particles g ! c) - p_x (particles g ! i)) (p_y (particles g ! c) - p_y (particles g ! i)) < 30)"
    and "b < length (particles g)" and "cls (particles g ! b) = Bullet" and "p_active (particles g ! b)"
    and "hypot (p_x (particles g ! b) - p_x (particles g ! i)) (p_y (particles g ! b) - p_y (particles g ! i)) < 30"
  shows "bullets_loop (pre @ b # post) i g = Inr (True, set_particle b (Bullet_reset False (particles g ! b)) g)"
  using assms
proof (induction pre)
  case Nil
  then show ?case by (simp add: reset_at_def reset_def)
next
  case (Cons c pre)
  then show ?case by auto
qed

text \<open>
  Claim C6 as amended. An active Enemy within distance 60 of the player is reset by
  \<open>advance\<close> and nothing else of the game changes, the bullets included. When the
  player is not within distance 60, the first active bullet of \<open>bullets\<close> within distance
  30 of the Enemy is reset, then the Enemy, and nothing else changes.
\<close>

theorem Enemy_advance_hit:
  "(p_active (particles g ! i) \<and>
    hypot (player_x g - p_x (particles g ! i)) (player_y g - p_y (particles g ! i)) < 60 \<longrightarrow>
      Enemy_advance nap i g = Inr (set_particle i (Enemy_reset False (particles g ! i)) g)) \<and>
   (p_active (particles g ! i) \<and>
    \<not> hypot (player_x g - p_x (particles g ! i)) (player_y g - p_y (particles g ! i)) < 60 \<and>
    bullets g = Some (pre @ b # post) \<and>
    (\<forall>c \<in> set pre. c < length (particles g) \<and>
        (cls (particles g ! c) = Bullet \<or> cls (particles g ! c) = Enemy) \<and>
        (p_active (particles g ! c) \<longrightarrow>
           \<not> hypot (p_x (particles g ! c) - p_x (particles g ! i))
                    (p_y (particles g ! c) - p_y (particles g ! i)) < 30)) \<and>
    b < length (particles g) \<and> b \<noteq> i \<and> cls (particles g ! b) = Bullet \<and>
    p_active (particles g ! b) \<and>
    hypot (p_x (particles g ! b) - p_x (particles g ! i))
          (p_y (particles g ! b) - p_y (particles g ! i)) < 30 \<longrightarrow>
      Enemy_advance nap i g =
        Inr (set_particle i (Enemy_reset False (particles g ! i))
              (set_particle b (Bullet_reset False (particles g ! b)) g)))"
proof (intro conjI impI)
  assume "p_active (particles g ! i) \<and>
    hypot (player_x g - p_x (particles g ! i)) (player_y g - p_y (particles g ! i)) < 60"
  then show "Enemy_advance nap i g = Inr (set_particle i (Enemy_reset False (particles g ! i)) g)"
    by (simp add: Enemy_advance_def check_hit_def)
next
  assume a: "p_active (particles g ! i) \<and>
    \<not> hypot (player_x g - p_x (particles g ! i)) (player_y g - p_y (particles g ! i)) < 60 \<and>
    bullets g = Some (pre @ b # post) \<and>
    (\<forall>c \<in> set pre. c < length (particles g) \<and>
        (cls (particles g ! c) = Bullet \<or> cls (particles g ! c) = Enemy) \<and>
        (p_active (particles g ! c) \<longrightarrow>
           \<not> hypot (p_x (particles g ! c) - p_x (particles g ! i))
                    (p_y (particles g ! c) - p_y (particles g ! i)) < 30)) \<and>
    b < length (particles g) \<and> b \<noteq> i \<and> cls (particles g ! b) = Bullet \<and>
    p_active (particles g ! b) \<and>
    hypot (p_x (particles g ! b) - p_x (particles g ! i))
          (p_y (particles g ! b) - p_y (particles g ! i)) < 30"
  then have "bullets_loop (pre @ b # post) i g =
      Inr (True, set_particle b (Bullet_reset False (particles g ! b)) g)"
    by (intro bullets_loop_first) auto
  with a show "Enemy_advance nap i g =
        Inr (set_particle i (Enemy_reset False (particles g ! i))
              (set_particle b (Bullet_reset False (particles g ! b)) g))"
    by (simp add: Enemy_advance_def check_hit_def set_particle_def)
qed

theorem Enemy_advance_hit_witness:
  "map_sum id (\<lambda>g. map (\<lambda>p. (cls p, p_active p, p_x p, p_y p)) (particles g))
     (Enemy_advance (1/100) 0 (duel (100, 50)))
     = Inr [(Enemy, False, -100, -100), (Bullet, True, 100, 50)] \<and>
   map_sum id (\<lambda>g. map (\<lambda>p. (cls p, p_active p, p_x p, p_y p)) (particles g))
     (Enemy_advance (1/100) 0 (duel (400, 300)))
     = Inr [(Enemy, False, -100, -100), (Bullet, False, -100, -100)]"
  using Enemy_advance_hit[of "duel (100, 50)" 0 "1/100" "[]" 1 "[]"]
    Enemy_advance_hit[of "duel (400, 300)" 0 "1/100" "[]" 1 "[]"]
  by (simp add: duel_def set_particle_def Enemy_reset_def Bullet_reset_def)

text \<open>
  Claim C7: after \<open>Enemy.reset\<close> the field \<open>v\<close> is 0. The code assigns a local variable
  \<open>v\<close>, so the field keeps its value: the Enemy of the collision scenario, with
  \<open>v = 50\<close>, still has \<open>v = 50\<close> after the reset, for either value of \<open>created\<close>.
\<close>

theorem Enemy_reset_keeps_v:
  "p_v (Enemy_reset created p) = p_v p \<and>
   Enemy_reset created (particles (duel (100, 50)) ! 0) =
     \<lparr>cls = Enemy, base_i = 0, p_x = -100, p_y = -100, p_size = 1, p_plane = 1,
      p_active = False, p_v = 50\<rparr>"
  by (simp add: Enemy_reset_def duel_def)

text \<open>
  Claim C8 says that an activation sets the cooldown to the constant whatever it was
  before. The code adds the constant: with the fire cooldown at \<open>-1/60\<close> and the spawn
  cooldown at \<open>-1/2\<close>, the activations leave \<open>0.3333 - 1/60\<close> and \<open>1/2\<close>.
\<close>

theorem cooldown_counterexample:
  "fire_delay (Bullet_advance (1/60) 1 idle_duel) = 0.3333 - 1/60 \<and>
   map_sum id spawn_delay (Enemy_advance (1/60) 0 idle_duel) = Inr (1/2)"
  by (simp add: Bullet_advance_def Enemy_advance_def Enemy_spawn_def idle_duel_def duel_def
      Bullet_reset_def Enemy_reset_def set_particle_def random01_def randint_def Let_def)

text \<open>
  Claim C8 as amended. When an inactive Bullet activates, the fire cooldown grows by
  \<open>0.3333\<close>; when an inactive Enemy activates, the spawn cooldown grows by \<open>1\<close>. The
  cooldown after the activation is the constant only if it was exactly zero before.
\<close>

theorem cooldown_added:
  "(\<not> p_active (particles g ! i) \<and> firing g \<and> fire_delay g \<le> 0 \<longrightarrow>
      fire_delay (Bullet_advance nap i g) = fire_delay g + 0.3333 \<and>
      (i < length (particles g) \<longrightarrow> p_active (particles (Bullet_advance nap i g) ! i))) \<and>
   (\<not> p_active (particles g ! i) \<and> spawn_delay g \<le> 0 \<longrightarrow>
      (\<exists>g'. Enemy_advance nap i g = Inr g' \<and> spawn_delay g' = spawn_delay g + 1 \<and>
         (i < length (particles g) \<longrightarrow> p_active (particles g' ! i))))"
  by (simp add: Bullet_advance_def Enemy_advance_def Enemy_spawn_def set_particle_def
      random01_def randint_def Let_def)

theorem cooldown_added_witness:
  "fire_delay (Bullet_advance (1/60) 1 idle_duel) = fire_delay idle_duel + 0.3333 \<and>
   p_active (particles (Bullet_advance (1/60) 1 idle_duel) ! 1) \<and>
   (\<exists>g'. Enemy_advance (1/60) 0 idle_duel = Inr g' \<and>
      spawn_delay g' = spawn_delay idle_duel + 1 \<and> p_active (particles g' ! 0))"
  using cooldown_added[of idle_duel 1 "1/60"] cooldown_added[of idle_duel 0 "1/60"]
  by (simp add: idle_duel_def duel_def Bullet_reset_def Enemy_reset_def)

lemma randint_range:
  assumes "a \<le> b"
  shows "a \<le> fst (randint a b g) \<and> fst (randint a b g) \<le> b"
proof -
  define r where "r = frac (rng g (rpos g))"
  have r: "0 \<le> r" "r < 1" by (simp_all add: r_def frac_lt_1)
  define n where "n = b - a + 1"
  have n: "0 < n" using assms by (simp add: n_def)
  have "0 \<le> r * of_int n" using r n by simp
  then have lo: "0 \<le> \<lfloor>r * of_int n\<rfloor>" by simp
  have "r * of_int n < of_int n" using r n by simp
  then have hi: "\<lfloor>r * of_int n\<rfloor> < n" by (simp add: floor_less_iff)
  have "fst (randint a b g) = a + \<lfloor>r * of_int n\<rfloor>"
    by (simp add: randint_def random01_def r_def n_def Let_def)
  with lo hi show ?thesis by (simp add: n_def)
qed

lemma Star_reset_plane: "p_plane (fst (Star_reset created p g)) \<in> {1, 2, 3}"
proof -
  have "p_plane (fst (Star_reset created p g)) = fst (randint 1 3 g)"
    by (simp add: Star_reset_def Let_def split: prod.splits)
  with randint_range[of 1 3 g] show ?thesis by auto
qed



section \<open>The frame pass keeps the layout and syncs the buffer\<close>

text \<open>
  Every \<open>advance\<close> leaves the \<open>layout\<close> and the vertex buffer alone and changes, besides
  its own particle, at most one bullet, which in a \<open>pool_ok\<close> pool stands later in the
  pool. \<open>Particle.update\<close> is twelve assignments into the slice of its particle. The
  loop of \<open>update_glsl\<close> therefore keeps the particles before its position synced.
\<close>

lemma pool_ok_layout: "layout g' = layout g \<Longrightarrow> pool_ok g' = pool_ok g"
proof -
  assume l: "layout g' = layout g"
  then have c: "map cls (particles g') = map cls (particles g)"
    and b: "map base_i (particles g') = map base_i (particles g)"
    and v: "length (vertices g') = length (vertices g)"
    and bu: "bullets g' = bullets g"
    by (simp_all add: layout_def)
  from c have len: "length (particles g') = length (particles g)"
    by (metis length_map)
  have nth: "\<And>k. k < length (particles g) \<Longrightarrow> cls (particles g' ! k) = cls (particles g ! k)"
    using c len by (metis nth_map)
  have dr: "\<And>k. map cls (drop k (particles g')) = map cls (drop k (particles g))"
    using c by (simp add: drop_map[symmetric])
  show ?thesis
    unfolding pool_ok_def v b bu len dr
    by (auto simp: list_all_iff nth split: option.splits)
qed

lemma map_update_same: "f y = f (xs ! i) \<Longrightarrow> map f (xs[i := y]) = map f xs"
proof (rule nth_equalityI)
  show "length (map f (xs[i := y])) = length (map f xs)" by simp
next
  fix k assume "k < length (map f (xs[i := y]))" and "f y = f (xs ! i)"
  then show "map f (xs[i := y]) ! k = map f xs ! k"
    by (cases "k = i") simp_all
qed

lemma layout_set_particle:
  "cls p = cls (particles g ! i) \<Longrightarrow> base_i p = base_i (particles g ! i) \<Longrightarrow>
   layout (set_particle i p g) = layout g"
  by (simp add: layout_def set_particle_def map_update_same)

lemma layout_rpos [simp]: "layout (g\<lparr>rpos := n\<rparr>) = layout g"
  by (simp add: layout_def)

lemma layout_fire_delay [simp]: "layout (g\<lparr>fire_delay := n\<rparr>) = layout g"
  by (simp add: layout_def)

lemma layout_spawn_delay [simp]: "layout (g\<lparr>spawn_delay := n\<rparr>) = layout g"
  by (simp add: layout_def)

lemma Star_reset_game: "\<exists>n. snd (Star_reset created p g) = g\<lparr>rpos := n\<rparr>"
  by (simp add: Star_reset_def random01_def randint_def Let_def split: prod.splits) blast

lemma Star_reset_cls [simp]:
  "cls (fst (Star_reset created p g)) = cls p" "base_i (fst (Star_reset created p g)) = base_i p"
  by (simp_all add: Star_reset_def random01_def randint_def Let_def split: prod.splits)

lemma Trail_reset_game: "\<exists>n. snd (Trail_reset created p g) = g\<lparr>rpos := n\<rparr>"
  by (simp add: Trail_reset_def random01_def randint_def Let_def split: prod.splits) blast

lemma Trail_reset_cls [simp]:
  "cls (fst (Trail_reset created p g)) = cls p" "base_i (fst (Trail_reset created p g)) = base_i p"
  by (simp_all add: Trail_reset_def random01_def randint_def Let_def split: prod.splits)

lemma Star_advance_frame:
  "layout (Star_advance nap i g) = layout g \<and> vertices (Star_advance nap i g) = vertices g \<and>
   (j \<noteq> i \<longrightarrow> particles (Star_advance nap i g) ! j = particles g ! j)"
proof -
  define p1 where "p1 = (particles g ! i)\<lparr>p_x := p_x (particles g ! i) - 20 * of_int (p_plane (particles g ! i)) * nap\<rparr>"
  obtain n where n: "snd (Star_reset False p1 g) = g\<lparr>rpos := n\<rparr>"
    using Star_reset_game by blast
  have c: "cls p1 = cls (particles g ! i)" "base_i p1 = base_i (particles g ! i)"
    by (simp_all add: p1_def)
  show ?thesis
    by (simp add: Star_advance_def Let_def p1_def[symmetric] split_beta n c layout_def
        set_particle_def map_update_same)
qed

lemma Trail_advance_frame:
  "layout (Trail_advance nap i g) = layout g \<and> vertices (Trail_advance nap i g) = vertices g \<and>
   (j \<noteq> i \<longrightarrow> particles (Trail_advance nap i g) ! j = particles g ! j)"
proof -
  define p1 where "p1 = (particles g ! i)\<lparr>p_size := p_size (particles g ! i) - nap\<rparr>"
  obtain n where n: "snd (Trail_reset False p1 g) = g\<lparr>rpos := n\<rparr>"
    using Trail_reset_game by blast
  have c: "cls p1 = cls (particles g ! i)" "base_i p1 = base_i (particles g ! i)"
    by (simp_all add: p1_def)
  show ?thesis
    by (simp add: Trail_advance_def Let_def p1_def[symmetric] split_beta n c layout_def
        set_particle_def map_update_same)
qed

lemma Player_advance_frame:
  "layout (Player_advance nap i g) = layout g \<and> vertices (Player_advance nap i g) = vertices g \<and>
   (j \<noteq> i \<longrightarrow> particles (Player_advance nap i g) ! j = particles g ! j)"
  by (simp add: Player_advance_def Player_reset_def layout_def set_particle_def map_update_same)

lemma Bullet_advance_frame:
  "layout (Bullet_advance nap i g) = layout g \<and> vertices (Bullet_advance nap i g) = vertices g \<and>
   (j \<noteq> i \<longrightarrow> particles (Bullet_advance nap i g) ! j = particles g ! j)"
  by (simp add: Bullet_advance_def Bullet_reset_def Let_def layout_def set_particle_def map_update_same)

lemma reset_at_frame:
  "layout (reset_at created b g) = layout g \<and> vertices (reset_at created b g) = vertices g \<and>
   (j \<noteq> b \<longrightarrow> particles (reset_at created b g) ! j = particles g ! j)"
proof -
  obtain n where n: "snd (reset created (particles g ! b) g) = g\<lparr>rpos := n\<rparr>"
    using reset_game by blast
  have "reset_at created b g = set_particle b (fst (reset created (particles g ! b) g)) (g\<lparr>rpos := n\<rparr>)"
    by (simp add: reset_at_def split_beta n)
  then show ?thesis
    by (simp add: layout_def set_particle_def map_update_same)
qed

lemma Enemy_move_frame:
  "layout (Enemy_move nap i g) = layout g \<and> vertices (Enemy_move nap i g) = vertices g \<and>
   (j \<noteq> i \<longrightarrow> particles (Enemy_move nap i g) ! j = particles g ! j)"
  by (simp add: Enemy_move_def Enemy_reset_def Let_def layout_def set_particle_def map_update_same)

lemma Enemy_spawn_frame:
  "layout (Enemy_spawn i g) = layout g \<and> vertices (Enemy_spawn i g) = vertices g \<and>
   (j \<noteq> i \<longrightarrow> particles (Enemy_spawn i g) ! j = particles g ! j)"
  by (simp add: Enemy_spawn_def random01_def randint_def Let_def layout_def set_particle_def map_update_same)

lemma bullets_loop_result:
  "bullets_loop bs i g = Inr (hit, g1) \<Longrightarrow> g1 = g \<or> (\<exists>b \<in> set bs. g1 = reset_at False b g)"
  by (induction bs) (auto split: if_splits)

lemma bullets_loop_total:
  "\<forall>b \<in> set bs. b < length (particles g) \<and> cls (particles g ! b) = Bullet \<Longrightarrow>
   \<exists>r. bullets_loop bs i g = Inr r"
  by (induction bs) auto

lemma pool_ok_len: "pool_ok g \<Longrightarrow> length (vertices g) = 28 * length (particles g)"
  by (simp add: pool_ok_def)

lemma pool_ok_base:
  assumes "pool_ok g" and "i < length (particles g)"
  shows "base_i (particles g ! i) = 28 * i"
proof -
  from assms(1) have "map base_i (particles g) = map (\<lambda>i. 4 * i * vsize) [0 ..< length (particles g)]"
    by (simp add: pool_ok_def)
  then have "map base_i (particles g) ! i = map (\<lambda>i. 4 * i * vsize) [0 ..< length (particles g)] ! i"
    by simp
  with assms(2) show ?thesis by simp
qed

lemma pool_ok_bullets:
  assumes "pool_ok g"
  shows "\<exists>bs. bullets g = Some bs \<and>
           (\<forall>b \<in> set bs. b < length (particles g) \<and> cls (particles g ! b) = Bullet \<and>
              (\<forall>i < length (particles g). cls (particles g ! i) = Enemy \<longrightarrow> i < b))"
proof -
  from assms obtain bs where bs: "bullets g = Some bs"
    and all: "list_all (\<lambda>b. b < length (particles g) \<and> cls (particles g ! b) = Bullet \<and>
                        Enemy \<notin> set (map cls (drop b (particles g)))) bs"
    by (auto simp: pool_ok_def split: option.splits)
  have "\<forall>i < length (particles g). cls (particles g ! i) = Enemy \<longrightarrow> i < b" if "b \<in> set bs" for b
  proof (intro allI impI)
    fix i assume i: "i < length (particles g)" and e: "cls (particles g ! i) = Enemy"
    from that all have n: "Enemy \<notin> set (map cls (drop b (particles g)))"
      by (simp add: list_all_iff)
    show "i < b"
    proof (rule ccontr)
      assume "\<not> i < b"
      then have le: "b \<le> i" by simp
      with i have "drop b (particles g) ! (i - b) = particles g ! i" by simp
      moreover from le i have "i - b < length (drop b (particles g))" by simp
      ultimately have "particles g ! i \<in> set (drop b (particles g))"
        by (metis nth_mem)
      with e n show False by force
    qed
  qed
  with bs all show ?thesis by (auto simp: list_all_iff)
qed

lemma Enemy_reset_frame:
  "layout (set_particle i (Enemy_reset False (particles g ! i)) g) = layout g \<and>
   vertices (set_particle i (Enemy_reset False (particles g ! i)) g) = vertices g \<and>
   (j \<noteq> i \<longrightarrow> particles (set_particle i (Enemy_reset False (particles g ! i)) g) ! j = particles g ! j)"
  by (simp add: Enemy_reset_def layout_def set_particle_def map_update_same)

lemma Enemy_advance_ok:
  assumes "pool_ok g" and "i < length (particles g)" and "cls (particles g ! i) = Enemy"
  shows "\<exists>g'. Enemy_advance nap i g = Inr g' \<and> layout g' = layout g \<and> vertices g' = vertices g \<and>
           (\<forall>j < i. particles g' ! j = particles g ! j)"
proof -
  from pool_ok_bullets[OF assms(1)] obtain bs where bs: "bullets g = Some bs"
    and all: "\<forall>b \<in> set bs. b < length (particles g) \<and> cls (particles g ! b) = Bullet \<and>
              (\<forall>i < length (particles g). cls (particles g ! i) = Enemy \<longrightarrow> i < b)"
    by blast
  have ch: "\<exists>hit g1. check_hit i g = Inr (hit, g1) \<and> layout g1 = layout g \<and> vertices g1 = vertices g \<and>
           (\<forall>j < i. particles g1 ! j = particles g ! j)"
  proof (cases "hypot (player_x g - p_x (particles g ! i)) (player_y g - p_y (particles g ! i)) < 60")
    case True
    then show ?thesis by (auto simp: check_hit_def)
  next
    case False
    from all bullets_loop_total[of bs g i] obtain hit g1 where r: "bullets_loop bs i g = Inr (hit, g1)"
      by fastforce
    from bullets_loop_result[OF r] have "layout g1 = layout g \<and> vertices g1 = vertices g \<and>
           (\<forall>j < i. particles g1 ! j = particles g ! j)"
    proof
      assume "g1 = g" then show ?thesis by simp
    next
      assume "\<exists>b \<in> set bs. g1 = reset_at False b g"
      then obtain b where b: "b \<in> set bs" "g1 = reset_at False b g" by blast
      with all assms(2,3) have "i < b" by blast
      then show ?thesis using reset_at_frame[of False b g] b(2) by auto
    qed
    with r False bs show ?thesis by (simp add: check_hit_def)
  qed
  then obtain hit g1 where c: "check_hit i g = Inr (hit, g1)" "layout g1 = layout g"
      "vertices g1 = vertices g" "\<forall>j < i. particles g1 ! j = particles g ! j"
    by blast
  show ?thesis
  proof (cases "p_active (particles g ! i)")
    case True
    show ?thesis
    proof (cases hit)
      case True
      with \<open>p_active (particles g ! i)\<close> c Enemy_reset_frame[of i g1]
      show ?thesis by (auto simp: Enemy_advance_def)
    next
      case False
      with \<open>p_active (particles g ! i)\<close> c Enemy_move_frame[of nap i g1]
      show ?thesis by (auto simp: Enemy_advance_def)
    qed
  next
    case False
    then show ?thesis using Enemy_spawn_frame[of i g]
      by (auto simp: Enemy_advance_def)
  qed
qed

lemma advance_ok:
  assumes "pool_ok g" and "i < length (particles g)"
  shows "\<exists>g'. advance nap i g = Inr g' \<and> layout g' = layout g \<and> vertices g' = vertices g \<and>
           (\<forall>j < i. particles g' ! j = particles g ! j)"
proof (cases "cls (particles g ! i)")
  case Star
  then show ?thesis using Star_advance_frame[of nap i g] by (auto simp: advance_def)
next
  case Trail
  then show ?thesis using Trail_advance_frame[of nap i g] by (auto simp: advance_def)
next
  case Player
  then show ?thesis using Player_advance_frame[of nap i g] by (auto simp: advance_def)
next
  case Bullet
  then show ?thesis using Bullet_advance_frame[of nap i g] by (auto simp: advance_def)
next
  case Enemy
  then show ?thesis using Enemy_advance_ok[OF assms Enemy, of nap] by (simp add: advance_def)
qed

lemma take3_drop:
  "take 3 (drop k vs) = [a, b, c] \<longleftrightarrow>
     k + 3 \<le> length vs \<and> vs ! k = a \<and> vs ! (k + 1) = b \<and> vs ! (k + 2) = c"
proof
  assume e: "take 3 (drop k vs) = [a, b, c]"
  then have "length (take 3 (drop k vs)) = 3" by simp
  then have l: "k + 3 \<le> length vs" by simp
  have "take 3 (drop k vs) ! 0 = vs ! k" "take 3 (drop k vs) ! 1 = vs ! (k + 1)"
    "take 3 (drop k vs) ! 2 = vs ! (k + 2)"
    using l by simp_all
  with e l show "k + 3 \<le> length vs \<and> vs ! k = a \<and> vs ! (k + 1) = b \<and> vs ! (k + 2) = c"
    by simp
next
  assume r: "k + 3 \<le> length vs \<and> vs ! k = a \<and> vs ! (k + 1) = b \<and> vs ! (k + 2) = c"
  show "take 3 (drop k vs) = [a, b, c]"
  proof (rule nth_equalityI)
    show "length (take 3 (drop k vs)) = length [a, b, c]" using r by auto
  next
    fix j assume "j < length (take 3 (drop k vs))"
    then have "j = 0 \<or> j = 1 \<or> j = 2" by auto
    then show "take 3 (drop k vs) ! j = [a, b, c] ! j" using r by auto
  qed
qed

lemma slice_assign3:
  assumes "k + 3 \<le> length xs"
  shows "slice_assign xs k (k + 3) [a, b, c] = xs[k := a, k + 1 := b, k + 2 := c]"
proof (rule nth_equalityI)
  show "length (slice_assign xs k (k + 3) [a, b, c]) = length (xs[k := a, k + 1 := b, k + 2 := c])"
    using assms by (simp add: slice_assign_def)
next
  fix j assume "j < length (slice_assign xs k (k + 3) [a, b, c])"
  then have j: "j < length xs" using assms by (simp add: slice_assign_def)
  consider "j < k" | "j = k" | "j = k + 1" | "j = k + 2" | "k + 3 \<le> j" by linarith
  then show "slice_assign xs k (k + 3) [a, b, c] ! j = xs[k := a, k + 1 := b, k + 2 := c] ! j"
  proof cases
    case 1 then show ?thesis using assms j by (simp add: slice_assign_def nth_append)
  next
    case 2 then show ?thesis using assms j by (simp add: slice_assign_def nth_append)
  next
    case 3 then show ?thesis using assms j by (simp add: slice_assign_def nth_append)
  next
    case 4 then show ?thesis using assms j by (simp add: slice_assign_def nth_append)
  next
    case 5
    then obtain d where d: "j = k + 3 + d" using le_Suc_ex by blast
    show ?thesis using assms j unfolding d
      by (simp add: slice_assign_def nth_append)
  qed
qed

lemma py_range_quad: "py_range b (b + 4 * vsize) vsize = [b, b + 7, b + 14, b + 21]"
  by (simp add: py_range_def upt_conv_Cons)

lemma Particle_update_eq:
  assumes "base_i (particles g ! i) + 28 \<le> length (vertices g)"
  shows "Particle_update i g =
     g\<lparr>vertices := (vertices g)
        [base_i (particles g ! i) := p_x (particles g ! i),
         base_i (particles g ! i) + 1 := p_y (particles g ! i),
         base_i (particles g ! i) + 2 := p_size (particles g ! i),
         base_i (particles g ! i) + 7 := p_x (particles g ! i),
         base_i (particles g ! i) + 8 := p_y (particles g ! i),
         base_i (particles g ! i) + 9 := p_size (particles g ! i),
         base_i (particles g ! i) + 14 := p_x (particles g ! i),
         base_i (particles g ! i) + 15 := p_y (particles g ! i),
         base_i (particles g ! i) + 16 := p_size (particles g ! i),
         base_i (particles g ! i) + 21 := p_x (particles g ! i),
         base_i (particles g ! i) + 22 := p_y (particles g ! i),
         base_i (particles g ! i) + 23 := p_size (particles g ! i)]\<rparr>"
proof -
  define b where "b = base_i (particles g ! i)"
  have l: "b + 28 \<le> length (vertices g)" using assms by (simp add: b_def)
  have s: "slice_assign xs k h [x, y, z] = xs[k := x, k + 1 := y, k + 2 := z]"
    if "length xs = length (vertices g)" and "h = k + 3" and "h \<le> b + 28"
    for xs :: "real list" and k h x y z
  proof -
    from that l have "k + 3 \<le> length xs" by simp
    from slice_assign3[OF this] \<open>h = k + 3\<close> show ?thesis by simp
  qed
  show ?thesis
    unfolding Particle_update_def Let_def py_range_quad b_def[symmetric]
    by (simp add: s ac_simps)
qed

lemma synced_particle_iff:
  "synced_particle vs p \<longleftrightarrow>
     base_i p + 24 \<le> length vs \<and>
     vs ! base_i p = p_x p \<and> vs ! (base_i p + 1) = p_y p \<and> vs ! (base_i p + 2) = p_size p \<and>
     vs ! (base_i p + 7) = p_x p \<and> vs ! (base_i p + 8) = p_y p \<and> vs ! (base_i p + 9) = p_size p \<and>
     vs ! (base_i p + 14) = p_x p \<and> vs ! (base_i p + 15) = p_y p \<and> vs ! (base_i p + 16) = p_size p \<and>
     vs ! (base_i p + 21) = p_x p \<and> vs ! (base_i p + 22) = p_y p \<and> vs ! (base_i p + 23) = p_size p"
  by (auto simp: synced_particle_def upt_conv_Cons take3_drop ac_simps)

lemma Particle_update_nth:
  assumes "base_i (particles g ! i) + 28 \<le> length (vertices g)"
    and "\<not> (base_i (particles g ! i) \<le> k \<and> k < base_i (particles g ! i) + 28 \<and>
            (k - base_i (particles g ! i)) mod 7 < 3)"
  shows "vertices (Particle_update i g) ! k = vertices g ! k"
proof -
  define b where "b = base_i (particles g ! i)"
  have ne: "k \<noteq> b + c" if "c \<in> {0, 1, 2, 7, 8, 9, 14, 15, 16, 21, 22, 23}" for c
  proof
    assume "k = b + c"
    with that assms(2) show False unfolding b_def[symmetric] by auto
  qed
  have "k \<noteq> b" "k \<noteq> b + 1" "k \<noteq> b + 2" "k \<noteq> b + 7" "k \<noteq> b + 8" "k \<noteq> b + 9"
    "k \<noteq> b + 14" "k \<noteq> b + 15" "k \<noteq> b + 16" "k \<noteq> b + 21" "k \<noteq> b + 22" "k \<noteq> b + 23"
    using ne[of 0] ne[of 1] ne[of 2] ne[of 7] ne[of 8] ne[of 9] ne[of 14] ne[of 15] ne[of 16]
      ne[of 21] ne[of 22] ne[of 23] by simp_all
  then show ?thesis
    unfolding Particle_update_eq[OF assms(1)] b_def[symmetric] by simp
qed

lemma Particle_update_length:
  assumes "base_i (particles g ! i) + 28 \<le> length (vertices g)"
  shows "length (vertices (Particle_update i g)) = length (vertices g)"
  unfolding Particle_update_eq[OF assms] by simp

lemma Particle_update_rest:
  "particles (Particle_update i g) = particles g \<and> indices (Particle_update i g) = indices g \<and>
   bullets (Particle_update i g) = bullets g"
  by (simp add: Particle_update_def Let_def)

lemma Particle_update_synced_self:
  assumes "base_i (particles g ! i) + 28 \<le> length (vertices g)"
  shows "synced_particle (vertices (Particle_update i g)) (particles g ! i)"
  unfolding Particle_update_eq[OF assms] synced_particle_iff using assms by simp

lemma Particle_update_synced_other:
  assumes "base_i (particles g ! i) + 28 \<le> length (vertices g)"
    and "base_i q + 28 \<le> base_i (particles g ! i) \<or> base_i (particles g ! i) + 28 \<le> base_i q"
    and "synced_particle (vertices g) q"
  shows "synced_particle (vertices (Particle_update i g)) q"
proof -
  have "vertices (Particle_update i g) ! (base_i q + c) = vertices g ! (base_i q + c)" if "c < 28" for c
    using assms(2) that by (intro Particle_update_nth[OF assms(1)]) auto
  from this[of 0] this[of 1] this[of 2] this[of 7] this[of 8] this[of 9] this[of 14] this[of 15]
    this[of 16] this[of 21] this[of 22] this[of 23] assms(3)
  show ?thesis
    by (simp add: synced_particle_iff Particle_update_length[OF assms(1)])
qed

lemma layout_length:
  assumes "layout g' = layout g"
  shows "length (particles g') = length (particles g)" and "length (vertices g') = length (vertices g)"
proof -
  from assms have "map cls (particles g') = map cls (particles g)" by (simp add: layout_def)
  then show "length (particles g') = length (particles g)" by (metis length_map)
  from assms show "length (vertices g') = length (vertices g)" by (simp add: layout_def)
qed

lemma pool_ok_slice:
  assumes "pool_ok g" and "i < length (particles g)"
  shows "base_i (particles g ! i) + 28 \<le> length (vertices g)"
  using pool_ok_base[OF assms] pool_ok_len[OF assms(1)] assms(2) by simp

lemma Particle_update_layout:
  assumes "base_i (particles g ! i) + 28 \<le> length (vertices g)"
  shows "layout (Particle_update i g) = layout g"
  using Particle_update_length[OF assms] Particle_update_rest[of i g] by (simp add: layout_def)

lemma update_loop_ok:
  assumes "pool_ok g" and "n = length (particles g)" and "k \<le> n"
    and "\<forall>j<k. synced_particle (vertices g) (particles g ! j)"
  shows "\<exists>g'. update_loop [k ..< n] nap g = Inr g' \<and> layout g' = layout g \<and>
           (\<forall>j<n. synced_particle (vertices g') (particles g' ! j))"
  using assms
proof (induction "n - k" arbitrary: k g)
  case 0
  then show ?case by simp
next
  case (Suc d)
  then have kn: "k < n" by simp
  with Suc.prems have ki: "k < length (particles g)" by simp
  from advance_ok[OF Suc.prems(1) ki, of nap] obtain g1 where
    g1: "advance nap k g = Inr g1" "layout g1 = layout g" "vertices g1 = vertices g"
      "\<forall>j<k. particles g1 ! j = particles g ! j"
    by blast
  have ok1: "pool_ok g1" using pool_ok_layout[OF g1(2)] Suc.prems(1) by simp
  have len1: "length (particles g1) = n" using layout_length(1)[OF g1(2)] Suc.prems(2) by simp
  have sl: "base_i (particles g1 ! k) + 28 \<le> length (vertices g1)"
    using pool_ok_slice[OF ok1] kn len1 by simp
  define g2 where "g2 = Particle_update k g1"
  have l2: "layout g2 = layout g1" unfolding g2_def by (rule Particle_update_layout[OF sl])
  have ok2: "pool_ok g2" using pool_ok_layout[OF l2] ok1 by simp
  have p2: "particles g2 = particles g1" unfolding g2_def using Particle_update_rest by simp
  have len2: "n = length (particles g2)" using p2 len1 by simp
  have sy: "\<forall>j<Suc k. synced_particle (vertices g2) (particles g2 ! j)"
  proof (intro allI impI)
    fix j assume "j < Suc k"
    then consider "j = k" | "j < k" by linarith
    then show "synced_particle (vertices g2) (particles g2 ! j)"
    proof cases
      case 1
      then show ?thesis unfolding p2 unfolding g2_def using Particle_update_synced_self[OF sl] by simp
    next
      case 2
      then have jn: "j < length (particles g1)" using kn len1 by simp
      have bj: "base_i (particles g1 ! j) = 28 * j" using pool_ok_base[OF ok1 jn] .
      have bk: "base_i (particles g1 ! k) = 28 * k" using pool_ok_base[OF ok1] kn len1 by simp
      have "synced_particle (vertices g1) (particles g1 ! j)"
        using Suc.prems(4) 2 g1(3,4) by simp
      then show ?thesis unfolding p2 unfolding g2_def
        using 2 bj bk by (intro Particle_update_synced_other[OF sl]) simp_all
    qed
  qed
  have d: "d = n - Suc k" using Suc.hyps(2) by simp
  from Suc.hyps(1)[OF d ok2 len2 _ sy] kn obtain g' where
    g': "update_loop [Suc k ..< n] nap g2 = Inr g'" "layout g' = layout g2"
      "\<forall>j<n. synced_particle (vertices g') (particles g' ! j)"
    by auto
  have "update_loop [k ..< n] nap g = Inr g'"
    using kn g1(1) g'(1) by (simp add: upt_conv_Cons g2_def)
  with g'(2,3) l2 g1(2) show ?case by simp
qed

lemma synced_iff: "synced g \<longleftrightarrow> (\<forall>j < length (particles g). synced_particle (vertices g) (particles g ! j))"
  by (simp add: synced_def list_all_length)

lemma PSWidget_update_glsl_ok:
  assumes "pool_ok g"
  shows "\<exists>g'. PSWidget_update_glsl nap g = Inr g' \<and> layout g' = layout g \<and> synced g'"
proof -
  have "\<forall>j<0::nat. synced_particle (vertices g) (particles g ! j)" by simp
  from update_loop_ok[OF assms refl _ this, of nap] obtain g' where
    g': "update_loop [0 ..< length (particles g)] nap g = Inr g'" "layout g' = layout g"
      "\<forall>j<length (particles g). synced_particle (vertices g') (particles g' ! j)"
    by auto
  then show ?thesis
    using layout_length(1)[OF g'(2)] by (simp add: PSWidget_update_glsl_def synced_iff)
qed

lemma Game_update_glsl_ok:
  assumes "pool_ok g"
  shows "\<exists>g'. Game_update_glsl mouse_pos nap g = Inr g' \<and> layout g' = layout g \<and> synced g'"
proof -
  define g3 where "g3 = (if firing g then g\<lparr>player_x := fst mouse_pos, player_y := snd mouse_pos, fire_delay := fire_delay g - nap, spawn_delay := spawn_delay g - nap\<rparr>
     else g\<lparr>player_x := fst mouse_pos, player_y := snd mouse_pos, spawn_delay := spawn_delay g - nap\<rparr>)"
  have e: "Game_update_glsl mouse_pos nap g = PSWidget_update_glsl nap g3"
    by (simp add: Game_update_glsl_def g3_def Let_def)
  have l: "layout g3 = layout g" by (simp add: g3_def layout_def)
  have "pool_ok g3" using pool_ok_layout[OF l] assms by simp
  from PSWidget_update_glsl_ok[OF this, of nap] l show ?thesis
    unfolding e by simp
qed

lemma run_ok:
  assumes "pool_ok g"
  shows "\<exists>g'. run evs g = Inr g' \<and> layout g' = layout g \<and>
           (\<forall>es m nap. evs = es @ [Tick m nap] \<longrightarrow> synced g')"
  using assms
proof (induction evs arbitrary: g)
  case Nil
  then show ?case by simp
next
  case (Cons ev evs)
  have "\<exists>g1. handle ev g = Inr g1 \<and> layout g1 = layout g \<and> (\<forall>m nap. ev = Tick m nap \<longrightarrow> synced g1)"
  proof (cases ev)
    case (Tick m nap)
    then show ?thesis using Game_update_glsl_ok[OF Cons.prems, of m nap] by simp
  qed (simp_all add: on_touch_down_def on_touch_up_def layout_def)
  then obtain g1 where g1: "handle ev g = Inr g1" "layout g1 = layout g"
      "\<forall>m nap. ev = Tick m nap \<longrightarrow> synced g1"
    by blast
  have ok1: "pool_ok g1" using pool_ok_layout[OF g1(2)] Cons.prems by simp
  from Cons.IH[OF ok1] obtain g' where g': "run evs g1 = Inr g'" "layout g' = layout g1"
      "\<forall>es m nap. evs = es @ [Tick m nap] \<longrightarrow> synced g'"
    by blast
  have "\<forall>es m nap. ev # evs = es @ [Tick m nap] \<longrightarrow> synced g'"
  proof (intro allI impI)
    fix es m nap assume e: "ev # evs = es @ [Tick m nap]"
    show "synced g'"
    proof (cases evs)
      case Nil
      with e have "ev = Tick m nap" by simp
      with g1(3) g'(1) Nil show ?thesis by simp
    next
      case (Cons a list)
      with e obtain es' where "evs = es' @ [Tick m nap]"
        by (cases es) auto
      with g'(3) show ?thesis by blast
    qed
  qed
  with g1 g' show ?case by simp
qed

lemma make_loop_particles:
  "map cls (particles (make_loop Cls uv js g)) = map cls (particles g) @ replicate (length js) Cls \<and>
   map base_i (particles (make_loop Cls uv js g)) = map base_i (particles g) @ map (\<lambda>i. 28 * i) js \<and>
   uvmap (make_loop Cls uv js g) = uvmap g"
proof (induction js arbitrary: g)
  case Nil
  show ?case by simp
next
  case (Cons i js)
  define g2 where "g2 = g\<lparr>indices := indices g @ [4 * i, 4 * i + 1, 4 * i + 2, 4 * i + 2, 4 * i + 3, 4 * i],
      vertices := vertices g @ [0, 0, 1, - su uv, - sv uv, u0 uv, v1 uv,
                                     0, 0, 1, su uv, - sv uv, u1 uv, v1 uv,
                                     0, 0, 1, su uv, sv uv, u1 uv, v0 uv,
                                     0, 0, 1, - su uv, sv uv, u0 uv, v0 uv]\<rparr>"
  obtain n where n: "snd (Particle_init Cls i g2) = g2\<lparr>rpos := n\<rparr>"
    unfolding Particle_init_def using reset_game by blast
  define G where "G = (g2\<lparr>rpos := n\<rparr>)\<lparr>particles := particles g2 @ [fst (Particle_init Cls i g2)]\<rparr>"
  have step: "make_loop Cls uv (i # js) g = make_loop Cls uv js G"
    using n by (simp add: Let_def split_beta G_def g2_def)
  have G: "map cls (particles G) = map cls (particles g) @ [Cls]"
    "map base_i (particles G) = map base_i (particles g) @ [28 * i]"
    "uvmap G = uvmap g"
    by (simp_all add: G_def g2_def Particle_init_def)
  show ?case
    unfolding step using Cons.IH[of G] by (simp add: G)
qed

lemma make_particles_built:
  assumes "built g" and "uvmap g (tex_name Cls) \<noteq> None"
  shows "\<exists>g'. make_particles Cls num g = Inr g' \<and> built g' \<and> uvmap g' = uvmap g \<and>
           map cls (particles g') = map cls (particles g) @ replicate (nat num) Cls"
proof -
  from assms(2) obtain uv where uv: "uvmap g (tex_name Cls) = Some uv" by blast
  define n where "n = length (particles g)"
  define js where "js = [n ..< n + nat num]"
  define g' where "g' = make_loop Cls uv js g"
  have mp: "make_particles Cls num g = Inr g'"
    using uv by (simp add: make_particles_def g'_def n_def Let_def js_def)
  note b = make_loop_buffers[of Cls uv js g, folded g'_def]
  note p = make_loop_particles[of Cls uv js g, folded g'_def]
  have ljs: "length js = nat num" by (simp add: js_def)
  have lp: "length (particles g') = n + nat num" using b ljs by (simp add: n_def)
  have "length (vertices g') = length (vertices g) + 28 * length js"
    using b by (simp add: length_concat comp_def sum_list_triv)
  then have lv: "length (vertices g') = 28 * (n + nat num)"
    using assms(1) ljs by (simp add: built_def n_def)
  have "[0 ..< n + nat num] = [0 ..< n] @ js"
    unfolding js_def by (rule upt_add_eq_append) simp
  then have "map (\<lambda>i. 28 * i) [0 ..< n + nat num] = map (\<lambda>i. 28 * i) [0 ..< n] @ map (\<lambda>i. 28 * i) js"
    by simp
  moreover have "map base_i (particles g') = map base_i (particles g) @ map (\<lambda>i. 28 * i) js"
    using p by blast
  moreover have "map base_i (particles g) = map (\<lambda>i. 28 * i) [0 ..< n]"
    using assms(1) by (simp add: built_def n_def)
  ultimately have bi: "map base_i (particles g') = map (\<lambda>i. 28 * i) [0 ..< n + nat num]"
    by simp
  have c: "map cls (particles g') = map cls (particles g) @ replicate (nat num) Cls"
    using p ljs by simp
  have u: "uvmap g' = uvmap g" using p by blast
  have "built g'" unfolding built_def lp using lv bi by simp
  with mp c u show ?thesis by blast
qed

lemma initialize_ok:
  assumes "built g"
    and "{''star'', ''trail'', ''player'', ''ufo'', ''bullet''} \<subseteq> dom (uvmap g)"
  shows "\<exists>g'. initialize g = Inr g' \<and> pool_ok g'"
proof -
  from assms(2) have u: "uvmap g (tex_name Star) \<noteq> None" "uvmap g (tex_name Trail) \<noteq> None"
    "uvmap g (tex_name Player) \<noteq> None" "uvmap g (tex_name Enemy) \<noteq> None"
    "uvmap g (tex_name Bullet) \<noteq> None"
    by auto
  from make_particles_built[OF assms(1) u(1), of 300] obtain g1 where
    g1: "make_particles Star 300 g = Inr g1" "built g1" "uvmap g1 = uvmap g"
    by blast
  from make_particles_built[OF g1(2), of Trail 200] u(2) g1(3) obtain g2 where
    g2: "make_particles Trail 200 g1 = Inr g2" "built g2" "uvmap g2 = uvmap g"
    by metis
  from make_particles_built[OF g2(2), of Player 1] u(3) g2(3) obtain g3 where
    g3: "make_particles Player 1 g2 = Inr g3" "built g3" "uvmap g3 = uvmap g"
    by metis
  from make_particles_built[OF g3(2), of Enemy 25] u(4) g3(3) obtain g4 where
    g4: "make_particles Enemy 25 g3 = Inr g4" "built g4" "uvmap g4 = uvmap g"
    by metis
  from make_particles_built[OF g4(2), of Bullet 25] u(5) g4(3) obtain g5 where
    g5: "make_particles Bullet 25 g4 = Inr g5" "built g5"
      "map cls (particles g5) = map cls (particles g4) @ replicate (nat 25) Bullet"
    by metis
  define n where "n = length (particles g4)"
  define g' where "g' = g5\<lparr>bullets := Some [length (particles g5) - 25 ..< length (particles g5)]\<rparr>"
  have i: "initialize g = Inr g'"
    by (simp add: initialize_def g1(1) g2(1) g3(1) g4(1) g5(1) g'_def)
  have n4: "length (map cls (particles g4)) = n" by (simp add: n_def)
  have c5: "map cls (particles g5) = map cls (particles g4) @ replicate 25 Bullet"
    using g5(3) by (simp)
  have len: "length (particles g5) = n + 25"
    using arg_cong[OF c5, of length] by (simp add: n_def)
  have bl: "b < length (particles g5) \<and> cls (particles g5 ! b) = Bullet \<and>
            Enemy \<notin> set (map cls (drop b (particles g5)))" if "n \<le> b" "b < n + 25" for b
  proof -
    have "cls (particles g5 ! b) = map cls (particles g5) ! b"
      using that len by simp
    also have "\<dots> = Bullet"
      unfolding c5 using that n4 by (simp add: nth_append)
    finally have 1: "cls (particles g5 ! b) = Bullet" .
    have "map cls (drop b (particles g5)) = drop b (map cls (particles g5))"
      by (simp add: drop_map)
    also have "\<dots> = replicate (n + 25 - b) Bullet"
      unfolding c5 using that n4 by (simp)
    finally have 2: "Enemy \<notin> set (map cls (drop b (particles g5)))" by simp
    from 1 2 that len show ?thesis by simp
  qed
  have "pool_ok g'"
    using g5(2) bl by (simp add: pool_ok_def g'_def built_def len list_all_iff)
  with i show ?thesis by blast
qed

lemma built_Game_new: "built (Game_new uvm win mouse_pos r)"
  by (simp add: built_def Game_new_def)

lemma play_ok:
  assumes "{''star'', ''trail'', ''player'', ''ufo'', ''bullet''} \<subseteq> dom uvm"
  shows "\<exists>g. play evs (Game_new uvm win mouse_pos r) = Inr g \<and> pool_ok g \<and>
           (\<forall>es m nap. evs = es @ [Tick m nap] \<longrightarrow> synced g)"
proof -
  have "uvmap (Game_new uvm win mouse_pos r) = uvm" by (simp add: Game_new_def)
  with assms initialize_ok[OF built_Game_new, of uvm win mouse_pos r]
  obtain g0 where g0: "initialize (Game_new uvm win mouse_pos r) = Inr g0" "pool_ok g0"
    by auto
  from run_ok[OF g0(2), of evs] obtain g where g: "run evs g0 = Inr g" "layout g = layout g0"
    "\<forall>es m nap. evs = es @ [Tick m nap] \<longrightarrow> synced g"
    by blast
  have "pool_ok g" using pool_ok_layout[OF g(2)] g0(2) by simp
  with g g0 show ?thesis by (simp add: play_def)
qed

text \<open>
  Claim C3. A complete pass \<open>PSWidget.update_glsl\<close> over a pool laid out as
  \<open>initialize\<close> lays it out returns, keeps the layout, and leaves every particle
  synced: the first three scalars of each of its four vertex records are its \<open>x\<close>,
  \<open>y\<close> and \<open>size\<close>. A Bullet that an Enemy resets during the pass stands after that
  Enemy in the pool, so its own \<open>update\<close> comes later in the same pass. Hence in every
  run of the application (any atlas with the five sprites, any window, inputs and
  random draws) the state after a clock tick is synced.
\<close>

theorem buffer_synced_after_update:
  "(pool_ok g \<longrightarrow> (\<exists>g'. PSWidget_update_glsl nap g = Inr g' \<and> pool_ok g' \<and> synced g')) \<and>
   ({''star'', ''trail'', ''player'', ''ufo'', ''bullet''} \<subseteq> dom uvm \<longrightarrow>
      (\<exists>g'. play (evs @ [Tick mouse_pos nap]) (Game_new uvm win m r) = Inr g' \<and>
            pool_ok g' \<and> synced g'))"
proof (intro conjI impI)
  assume ok: "pool_ok g"
  from PSWidget_update_glsl_ok[OF ok, of nap] obtain g' where
    g': "PSWidget_update_glsl nap g = Inr g'" "layout g' = layout g" "synced g'"
    by blast
  have "pool_ok g'" using pool_ok_layout[OF g'(2)] ok by simp
  with g' show "\<exists>g'. PSWidget_update_glsl nap g = Inr g' \<and> pool_ok g' \<and> synced g'" by blast
next
  assume "{''star'', ''trail'', ''player'', ''ufo'', ''bullet''} \<subseteq> dom uvm"
  from play_ok[OF this, of "evs @ [Tick mouse_pos nap]" win m r]
  show "\<exists>g'. play (evs @ [Tick mouse_pos nap]) (Game_new uvm win m r) = Inr g' \<and>
            pool_ok g' \<and> synced g'"
    by blast
qed

lemma pool_ok_duel: "pool_ok (duel pos)"
  by (simp add: pool_ok_def duel_def upt_conv_Cons)

lemma duel_pass:
  "map_sum id (\<lambda>g. (map (\<lambda>p. (cls p, p_active p, p_x p, p_y p)) (particles g),
                       [vertices g ! 28, vertices g ! 29, vertices g ! 30]))
     (PSWidget_update_glsl (1/60) (duel (400, 300))) =
   Inr ([(Enemy, False, -100, -100), (Bullet, False, -100, -100)], [-100, -100, 1])"
  by (simp add: PSWidget_update_glsl_def upt_conv_Cons advance_def Enemy_advance_def check_hit_def
      reset_at_def reset_def Bullet_reset_def Enemy_reset_def set_particle_def Bullet_advance_def
      Particle_update_eq duel_def Let_def del: vsize_eq)

theorem buffer_synced_after_update_witness:
  "(\<exists>g'. PSWidget_update_glsl (1/60) (duel (400, 300)) = Inr g' \<and> pool_ok g' \<and> synced g' \<and>
         map (\<lambda>p. (cls p, p_active p, p_x p, p_y p)) (particles g') =
           [(Enemy, False, -100, -100), (Bullet, False, -100, -100)] \<and>
         [vertices g' ! 28, vertices g' ! 29, vertices g' ! 30] = [-100, -100, 1]) \<and>
   (\<exists>g'. play [Touch_down, Tick (400, 300) (1/60)] (Game_new five_sprites (800, 600) (0, 0) (\<lambda>_. 0))
           = Inr g' \<and> pool_ok g' \<and> synced g')"
proof -
  note t = buffer_synced_after_update[of "duel (400, 300)" "1/60" five_sprites "[Touch_down]"
      "(400, 300)" "(800, 600)" "(0, 0)" "\<lambda>_. 0"]
  from t pool_ok_duel[of "(400, 300)"] obtain g' where
    g': "PSWidget_update_glsl (1/60) (duel (400, 300)) = Inr g'" "pool_ok g'" "synced g'"
    by blast
  from duel_pass have p: "map (\<lambda>p. (cls p, p_active p, p_x p, p_y p)) (particles g') =
           [(Enemy, False, -100, -100), (Bullet, False, -100, -100)]"
    and v: "[vertices g' ! 28, vertices g' ! 29, vertices g' ! 30] = [-100, -100, 1]"
    unfolding g'(1) by simp_all
  have a: "\<exists>g'. PSWidget_update_glsl (1/60) (duel (400, 300)) = Inr g' \<and> pool_ok g' \<and> synced g' \<and>
         map (\<lambda>p. (cls p, p_active p, p_x p, p_y p)) (particles g') =
           [(Enemy, False, -100, -100), (Bullet, False, -100, -100)] \<and>
         [vertices g' ! 28, vertices g' ! 29, vertices g' ! 30] = [-100, -100, 1]"
    by (intro exI[of _ g'] conjI) (rule g' p v)+
  from t have b: "\<exists>g'. play [Touch_down, Tick (400, 300) (1/60)]
      (Game_new five_sprites (800, 600) (0, 0) (\<lambda>_. 0)) = Inr g' \<and> pool_ok g' \<and> synced g'"
    by (simp add: five_sprites_def)
  from a b show ?thesis by (rule conjI)
qed

text \<open>
  Claim C4. In a pool laid out as \<open>initialize\<close> lays it out, \<open>Particle.update\<close> of
  particle \<open>i\<close> changes nothing of the game but the vertex buffer, keeps its length, and
  changes no scalar outside the first three of each of the four records of the slice
  \<open>[28 * i, 28 * i + 28)\<close>: local offsets, uv fields and all other slices stay. A full
  frame pass, through \<open>PSWidget.update_glsl\<close> or \<open>Game.update_glsl\<close>, returns with
  the vertex array at its length and the index array unchanged.
\<close>

theorem update_writes_own_center_scale:
  assumes "pool_ok g" and "i < length (particles g)"
  shows "Particle_update i g = g\<lparr>vertices := vertices (Particle_update i g)\<rparr> \<and>
         length (vertices (Particle_update i g)) = length (vertices g) \<and>
         (\<forall>k. \<not> (28 * i \<le> k \<and> k < 28 * i + 28 \<and> (k - 28 * i) mod 7 < 3) \<longrightarrow>
              vertices (Particle_update i g) ! k = vertices g ! k) \<and>
         (\<exists>g'. PSWidget_update_glsl nap g = Inr g' \<and>
               length (vertices g') = length (vertices g) \<and> indices g' = indices g) \<and>
         (\<exists>g'. Game_update_glsl mouse_pos nap g = Inr g' \<and>
               length (vertices g') = length (vertices g) \<and> indices g' = indices g)"
proof -
  note sl = pool_ok_slice[OF assms]
  note b = pool_ok_base[OF assms]
  have 1: "Particle_update i g = g\<lparr>vertices := vertices (Particle_update i g)\<rparr>"
    by (simp add: Particle_update_def Let_def)
  have 2: "length (vertices (Particle_update i g)) = length (vertices g)"
    by (rule Particle_update_length[OF sl])
  have 3: "\<forall>k. \<not> (28 * i \<le> k \<and> k < 28 * i + 28 \<and> (k - 28 * i) mod 7 < 3) \<longrightarrow>
              vertices (Particle_update i g) ! k = vertices g ! k"
    using Particle_update_nth[OF sl] unfolding b by blast
  from PSWidget_update_glsl_ok[OF assms(1), of nap] obtain g1 where
    g1: "PSWidget_update_glsl nap g = Inr g1" "layout g1 = layout g" by blast
  from Game_update_glsl_ok[OF assms(1), of mouse_pos nap] obtain g2 where
    g2: "Game_update_glsl mouse_pos nap g = Inr g2" "layout g2 = layout g" by blast
  have 4: "\<exists>g'. PSWidget_update_glsl nap g = Inr g' \<and>
               length (vertices g') = length (vertices g) \<and> indices g' = indices g"
    using g1 by (simp add: layout_def)
  have 5: "\<exists>g'. Game_update_glsl mouse_pos nap g = Inr g' \<and>
               length (vertices g') = length (vertices g) \<and> indices g' = indices g"
    using g2 by (simp add: layout_def)
  from 1 2 3 4 5 show ?thesis by blast
qed

theorem update_writes_own_center_scale_witness:
  "length (vertices (Particle_update 1 (duel (400, 300)))) = 56 \<and>
   vertices (Particle_update 1 (duel (400, 300))) ! 27 = vertices (duel (400, 300)) ! 27 \<and>
   vertices (Particle_update 1 (duel (400, 300))) ! 31 = vertices (duel (400, 300)) ! 31 \<and>
   (\<exists>g'. PSWidget_update_glsl (1/100) (duel (400, 300)) = Inr g' \<and>
         length (vertices g') = 56 \<and> indices g' = [0, 1, 2, 2, 3, 0, 4, 5, 6, 6, 7, 4])"
proof -
  have l: "(1::nat) < length (particles (duel (400, 300)))" by (simp add: duel_def)
  note t = update_writes_own_center_scale[OF pool_ok_duel l, of "1/100" "(400, 300)"]
  from t have a: "length (vertices (Particle_update 1 (duel (400, 300)))) = 56"
    by (simp add: duel_def)
  from t have n: "\<And>k. \<not> (28 * 1 \<le> k \<and> k < 28 * 1 + 28 \<and> (k - 28 * 1) mod 7 < 3) \<Longrightarrow>
      vertices (Particle_update 1 (duel (400, 300))) ! k = vertices (duel (400, 300)) ! k"
    by blast
  from t have c: "\<exists>g'. PSWidget_update_glsl (1/100) (duel (400, 300)) = Inr g' \<and>
         length (vertices g') = 56 \<and> indices g' = [0, 1, 2, 2, 3, 0, 4, 5, 6, 6, 7, 4]"
    by (simp add: duel_def)
  from a n[of 27] n[of 31] c show ?thesis by simp
qed

text \<open>
  The order of the pool matters. With the Bullet before the Enemy (a pool that is not
  \<open>pool_ok\<close>, and that no run of the application reaches), the Bullet is written to
  the buffer at \<open>x = 102.5\<close> and then reset by the Enemy later in the same pass: the
  pass ends with the Bullet at \<open>x = -100\<close> and its buffer slot still at \<open>102.5\<close>.
\<close>

lemma stale_outside_layout:
  "map_sum id (\<lambda>g. (p_x (particles g ! 0), vertices g ! 0))
     (PSWidget_update_glsl (1/100) swapped_duel) = Inr (-100, 102.5) \<and>
   \<not> pool_ok swapped_duel"
  by (simp add: PSWidget_update_glsl_def upt_conv_Cons advance_def Enemy_advance_def check_hit_def
      reset_at_def reset_def Bullet_reset_def Enemy_reset_def set_particle_def Bullet_advance_def
      Particle_update_eq swapped_duel_def Let_def pool_ok_def del: vsize_eq)

section \<open>\<open>Enemy.reset\<close> and the field \<open>v\<close>\<close>

text \<open>
  The program and its variant are compared step by step: each function of the program
  takes \<open>sim\<close> states to \<open>sim\<close> results of its \<open>_v0\<close> counterpart, and raises the same
  exceptions. Population is the same function in both, since a new object has \<open>v = 0\<close>.
\<close>

lemma psim_refl [simp]: "psim p p"
  by (simp add: psim_def)

lemma sim_refl [simp]: "sim g g"
  by (simp add: sim_def list_all2_refl)

lemma psim_fields:
  assumes "psim p q"
  shows "cls q = cls p" "base_i q = base_i p" "p_x q = p_x p" "p_y q = p_y p" "p_size q = p_size p"
    "p_plane q = p_plane p" "p_active q = p_active p"
proof -
  from assms have q: "q = p\<lparr>p_v := p_v q\<rparr>" by (simp add: psim_def)
  show "cls q = cls p" by (subst q) simp
  show "base_i q = base_i p" by (subst q) simp
  show "p_x q = p_x p" by (subst q) simp
  show "p_y q = p_y p" by (subst q) simp
  show "p_size q = p_size p" by (subst q) simp
  show "p_plane q = p_plane p" by (subst q) simp
  show "p_active q = p_active p" by (subst q) simp
qed

lemma psim_eq: "psim p q \<Longrightarrow> cls p \<noteq> Enemy \<or> p_active p \<Longrightarrow> q = p"
  by (auto simp: psim_def)

lemma sim_nth: "sim g h \<Longrightarrow> i < length (particles g) \<Longrightarrow> psim (particles g ! i) (particles h ! i)"
  by (simp add: sim_def list_all2_nthD)

lemma sim_length: "sim g h \<Longrightarrow> length (particles h) = length (particles g)"
  unfolding sim_def by (metis list_all2_lengthD)

lemma sim_globals:
  assumes "sim g h"
  shows "uvmap h = uvmap g" "indices h = indices g" "vertices h = vertices g" "bullets h = bullets g"
    "width h = width g" "height h = height g" "player_x h = player_x g" "player_y h = player_y g"
    "firing h = firing g" "fire_delay h = fire_delay g" "spawn_delay h = spawn_delay g"
    "rng h = rng g" "rpos h = rpos g"
proof -
  from assms have h: "h = g\<lparr>particles := particles h\<rparr>" by (simp add: sim_def)
  show "uvmap h = uvmap g" by (subst h) simp
  show "indices h = indices g" by (subst h) simp
  show "vertices h = vertices g" by (subst h) simp
  show "bullets h = bullets g" by (subst h) simp
  show "width h = width g" by (subst h) simp
  show "height h = height g" by (subst h) simp
  show "player_x h = player_x g" by (subst h) simp
  show "player_y h = player_y g" by (subst h) simp
  show "firing h = firing g" by (subst h) simp
  show "fire_delay h = fire_delay g" by (subst h) simp
  show "spawn_delay h = spawn_delay g" by (subst h) simp
  show "rng h = rng g" by (subst h) simp
  show "rpos h = rpos g" by (subst h) simp
qed

lemma simI:
  assumes "sim g h" and "psim p q"
  shows "sim (set_particle i p g) (set_particle i q h)"
proof -
  from assms(1) have h: "h = g\<lparr>particles := particles h\<rparr>"
    and l: "list_all2 psim (particles g) (particles h)" by (simp_all add: sim_def)
  have "set_particle i q h = (set_particle i p g)\<lparr>particles := (particles h)[i := q]\<rparr>"
    by (subst h) (simp add: set_particle_def)
  moreover have "list_all2 psim ((particles g)[i := p]) ((particles h)[i := q])"
    using l assms(2) by (rule list_all2_update_cong)
  ultimately show ?thesis by (simp add: sim_def set_particle_def)
qed

lemma sim_upd:
  assumes "sim g h"
  shows "sim (g\<lparr>rpos := n\<rparr>) (h\<lparr>rpos := n\<rparr>)" "sim (g\<lparr>fire_delay := a\<rparr>) (h\<lparr>fire_delay := a\<rparr>)"
    "sim (g\<lparr>spawn_delay := a\<rparr>) (h\<lparr>spawn_delay := a\<rparr>)"
    "sim (g\<lparr>vertices := vs\<rparr>) (h\<lparr>vertices := vs\<rparr>)"
    "sim (g\<lparr>player_x := a, player_y := b\<rparr>) (h\<lparr>player_x := a, player_y := b\<rparr>)"
    "sim (g\<lparr>firing := f\<rparr>) (h\<lparr>firing := f\<rparr>)"
    "sim (g\<lparr>width := a, height := b\<rparr>) (h\<lparr>width := a, height := b\<rparr>)"
proof -
  from assms have h: "h = g\<lparr>particles := particles h\<rparr>"
    and l: "list_all2 psim (particles g) (particles h)" by (simp_all add: sim_def)
  show "sim (g\<lparr>rpos := n\<rparr>) (h\<lparr>rpos := n\<rparr>)" using l by (subst h) (simp add: sim_def)
  show "sim (g\<lparr>fire_delay := a\<rparr>) (h\<lparr>fire_delay := a\<rparr>)" using l by (subst h) (simp add: sim_def)
  show "sim (g\<lparr>spawn_delay := a\<rparr>) (h\<lparr>spawn_delay := a\<rparr>)" using l by (subst h) (simp add: sim_def)
  show "sim (g\<lparr>vertices := vs\<rparr>) (h\<lparr>vertices := vs\<rparr>)" using l by (subst h) (simp add: sim_def)
  show "sim (g\<lparr>player_x := a, player_y := b\<rparr>) (h\<lparr>player_x := a, player_y := b\<rparr>)"
    using l by (subst h) (simp add: sim_def)
  show "sim (g\<lparr>firing := f\<rparr>) (h\<lparr>firing := f\<rparr>)" using l by (subst h) (simp add: sim_def)
  show "sim (g\<lparr>width := a, height := b\<rparr>) (h\<lparr>width := a, height := b\<rparr>)"
    using l by (subst h) (simp add: sim_def)
qed

lemma Star_reset_sim:
  assumes "sim g h"
  shows "fst (Star_reset c p h) = fst (Star_reset c p g)"
    and "sim (snd (Star_reset c p g)) (snd (Star_reset c p h))"
proof -
  note G = sim_globals[OF assms]
  show "fst (Star_reset c p h) = fst (Star_reset c p g)"
    by (simp add: Star_reset_def random01_def randint_def Let_def G split: prod.splits)
  show "sim (snd (Star_reset c p g)) (snd (Star_reset c p h))"
    by (simp add: Star_reset_def random01_def randint_def Let_def G sim_upd(1)[OF assms]
        split: prod.splits)
qed

lemma Trail_reset_sim:
  assumes "sim g h"
  shows "fst (Trail_reset c p h) = fst (Trail_reset c p g)"
    and "sim (snd (Trail_reset c p g)) (snd (Trail_reset c p h))"
proof -
  note G = sim_globals[OF assms]
  show "fst (Trail_reset c p h) = fst (Trail_reset c p g)"
    by (simp add: Trail_reset_def random01_def randint_def Let_def G split: prod.splits)
  show "sim (snd (Trail_reset c p g)) (snd (Trail_reset c p h))"
    by (simp add: Trail_reset_def random01_def randint_def Let_def G sim_upd(1)[OF assms]
        split: prod.splits)
qed

lemma Star_advance_sim:
  assumes "sim g h" and "i < length (particles g)" and "cls (particles g ! i) \<noteq> Enemy"
  shows "sim (Star_advance nap i g) (Star_advance nap i h)"
proof -
  have q: "particles h ! i = particles g ! i"
    using psim_eq[OF sim_nth[OF assms(1,2)]] assms(3) by simp
  show ?thesis
    unfolding Star_advance_def Let_def q split_beta
    by (simp add: Star_reset_sim[OF assms(1)] simI[OF assms(1)] simI[OF Star_reset_sim(2)[OF assms(1)]])
qed

lemma Trail_advance_sim:
  assumes "sim g h" and "i < length (particles g)" and "cls (particles g ! i) \<noteq> Enemy"
  shows "sim (Trail_advance nap i g) (Trail_advance nap i h)"
proof -
  have q: "particles h ! i = particles g ! i"
    using psim_eq[OF sim_nth[OF assms(1,2)]] assms(3) by simp
  show ?thesis
    unfolding Trail_advance_def Let_def q split_beta
    by (simp add: Trail_reset_sim[OF assms(1)] simI[OF assms(1)] simI[OF Trail_reset_sim(2)[OF assms(1)]])
qed

lemma Player_advance_sim:
  assumes "sim g h" and "i < length (particles g)" and "cls (particles g ! i) \<noteq> Enemy"
  shows "sim (Player_advance nap i g) (Player_advance nap i h)"
proof -
  have q: "particles h ! i = particles g ! i"
    using psim_eq[OF sim_nth[OF assms(1,2)]] assms(3) by simp
  show ?thesis
    unfolding Player_advance_def q
    by (simp add: Player_reset_def sim_globals[OF assms(1)] simI[OF assms(1)])
qed

lemma Bullet_advance_sim:
  assumes "sim g h" and "i < length (particles g)" and "cls (particles g ! i) \<noteq> Enemy"
  shows "sim (Bullet_advance nap i g) (Bullet_advance nap i h)"
proof -
  have q: "particles h ! i = particles g ! i"
    using psim_eq[OF sim_nth[OF assms(1,2)]] assms(3) by simp
  have s: "sim (set_particle i p g\<lparr>fire_delay := a\<rparr>) (set_particle i p h\<lparr>fire_delay := a\<rparr>)" for p a
    using sim_upd(2)[OF simI[OF assms(1) psim_refl]] .
  show ?thesis
    unfolding Bullet_advance_def Let_def q
    by (simp add: sim_globals[OF assms(1)] simI[OF assms(1)] assms(1) s)
qed

lemma reset_sim:
  assumes "sim g h" and "psim p q"
  shows "psim (fst (reset c p g)) (fst (reset_v0 c q h))"
    and "sim (snd (reset c p g)) (snd (reset_v0 c q h))"
proof -
  note F = psim_fields[OF assms(2)]
  have e: "cls p \<noteq> Enemy \<Longrightarrow> q = p" using psim_eq[OF assms(2)] by simp
  have en: "psim (Enemy_reset c p) (Enemy_reset_v0 c q)" if "cls p = Enemy"
  proof -
    from assms(2) obtain w where "q = p\<lparr>p_v := w\<rparr>" unfolding psim_def by blast
    then show ?thesis using that by (simp add: psim_def Enemy_reset_def Enemy_reset_v0_def)
  qed
  show "psim (fst (reset c p g)) (fst (reset_v0 c q h))"
    using e en by (cases "cls p") (simp_all add: reset_def reset_v0_def F Star_reset_sim[OF assms(1)]
        Trail_reset_sim[OF assms(1)] Player_reset_def sim_globals[OF assms(1)])
  show "sim (snd (reset c p g)) (snd (reset_v0 c q h))"
    using e assms(1) by (cases "cls p") (simp_all add: reset_def reset_v0_def F Star_reset_sim[OF assms(1)]
        Trail_reset_sim[OF assms(1)])
qed

lemma reset_at_sim:
  assumes "sim g h" and "b < length (particles g)"
  shows "sim (reset_at c b g) (reset_at_v0 c b h)"
  unfolding reset_at_def reset_at_v0_def split_beta Let_def
  by (rule simI[OF reset_sim(2) reset_sim(1)]) (rule assms(1) sim_nth[OF assms])+

lemma bullets_loop_sim:
  assumes "sim g h" and "i < length (particles g)"
  shows "rel_sum (=) (rel_prod (=) sim) (bullets_loop bs i g) (bullets_loop_v0 bs i h)"
proof (induction bs)
  case Nil
  show ?case using assms(1) by simp
next
  case (Cons b bs)
  note Fi = psim_fields[OF sim_nth[OF assms]]
  show ?case
  proof (cases "b < length (particles g)")
    case True
    note Fb = psim_fields[OF sim_nth[OF assms(1) True]]
    show ?thesis
      using Cons.IH True reset_at_sim[OF assms(1) True, of False]
      by (simp add: sim_length[OF assms(1)] Fi Fb)
  next
    case False
    then show ?thesis by (simp add: sim_length[OF assms(1)])
  qed
qed

lemma check_hit_sim:
  assumes "sim g h" and "i < length (particles g)"
  shows "rel_sum (=) (rel_prod (=) sim) (check_hit i g) (check_hit_v0 i h)"
  using assms(1) bullets_loop_sim[OF assms]
  by (simp add: check_hit_def check_hit_v0_def psim_fields[OF sim_nth[OF assms]]
      sim_globals[OF assms(1)] split: option.splits)

lemma bullets_loop_miss: "bullets_loop bs i g = Inr (False, g1) \<Longrightarrow> g1 = g"
  by (induction bs) (auto split: if_splits)

lemma bullets_loop_v0_miss: "bullets_loop_v0 bs i g = Inr (False, g1) \<Longrightarrow> g1 = g"
  by (induction bs) (auto split: if_splits)

lemma check_hit_v0_miss: "check_hit_v0 i g = Inr (False, g1) \<Longrightarrow> g1 = g"
  by (auto simp: check_hit_v0_def bullets_loop_v0_miss split: if_splits option.splits)

lemma check_hit_miss: "check_hit i g = Inr (False, g1) \<Longrightarrow> g1 = g"
  by (auto simp: check_hit_def bullets_loop_miss split: if_splits option.splits)

lemma Enemy_move_sim:
  assumes "sim g h" and "i < length (particles g)" and "cls (particles g ! i) = Enemy"
    and "p_active (particles g ! i)"
  shows "sim (Enemy_move nap i g) (Enemy_move_v0 nap i h)"
proof -
  have q: "particles h ! i = particles g ! i"
    using psim_eq[OF sim_nth[OF assms(1,2)]] assms(4) by simp
  have r: "psim (Enemy_reset False p) (Enemy_reset_v0 False p)" if "cls p = Enemy" for p
    using that by (simp add: psim_def Enemy_reset_def Enemy_reset_v0_def)
  show ?thesis
    unfolding Enemy_move_def Enemy_move_v0_def Let_def q
    by (simp add: sim_globals[OF assms(1)] simI[OF assms(1)] r assms(3))
qed

lemma Enemy_spawn_sim:
  assumes "sim g h" and "i < length (particles g)"
  shows "sim (Enemy_spawn i g) (Enemy_spawn i h)"
proof -
  from sim_nth[OF assms] obtain w where q: "particles h ! i = (particles g ! i)\<lparr>p_v := w\<rparr>"
    unfolding psim_def by blast
  have s: "sim (set_particle i p (g\<lparr>rpos := n\<rparr>)\<lparr>spawn_delay := a\<rparr>)
               (set_particle i p (h\<lparr>rpos := n\<rparr>)\<lparr>spawn_delay := a\<rparr>)" for p n a
    using sim_upd(3)[OF simI[OF sim_upd(1)[OF assms(1)] psim_refl]] .
  show ?thesis
    unfolding Enemy_spawn_def q
    by (simp add: random01_def randint_def Let_def sim_globals[OF assms(1)] s)
qed

lemma Enemy_advance_sim:
  assumes "sim g h" and "i < length (particles g)" and "cls (particles g ! i) = Enemy"
  shows "rel_sum (=) sim (Enemy_advance nap i g) (Enemy_advance_v0 nap i h)"
proof (cases "p_active (particles g ! i)")
  case True
  then have ah: "p_active (particles h ! i)" using psim_fields(7)[OF sim_nth[OF assms(1,2)]] by simp
  show ?thesis
  proof (cases "check_hit i g")
    case (Inl e)
    with check_hit_sim[OF assms(1,2)] have "check_hit_v0 i h = Inl e"
      by (cases "check_hit_v0 i h") simp_all
    with Inl True ah show ?thesis by (simp add: Enemy_advance_def Enemy_advance_v0_def)
  next
    case (Inr r)
    obtain hit g1 where r: "r = (hit, g1)" by (cases r)
    from check_hit_sim[OF assms(1,2)] Inr r obtain h1 where
      h1: "check_hit_v0 i h = Inr (hit, h1)" "sim g1 h1"
      by (cases "check_hit_v0 i h") auto
    show ?thesis
    proof (cases hit)
      case True
      have len: "length (particles g1) = length (particles g)"
        using Inr r bullets_loop_result[of _ i g hit g1] reset_at_frame[of False _ g]
        by (auto simp: check_hit_def layout_def split: if_splits option.splits dest!: bullets_loop_result)
           (metis length_map)+
      have c1: "cls (particles g1 ! i) = Enemy"
      proof -
        have "map cls (particles g1) = map cls (particles g)"
          using Inr r reset_at_frame[of False _ g]
          by (auto simp: check_hit_def layout_def split: if_splits option.splits dest!: bullets_loop_result)
        then have "map cls (particles g1) ! i = map cls (particles g) ! i" by simp
        then show ?thesis using assms(2,3) len by simp
      qed
      have i1: "i < length (particles g1)" using len assms(2) by simp
      from sim_nth[OF h1(2) i1] obtain w where
        q: "particles h1 ! i = (particles g1 ! i)\<lparr>p_v := w\<rparr>"
        unfolding psim_def by blast
      have "psim (Enemy_reset False (particles g1 ! i)) (Enemy_reset_v0 False (particles h1 ! i))"
        unfolding q using c1 by (simp add: psim_def Enemy_reset_def Enemy_reset_v0_def)
      from simI[OF h1(2) this] True Inr r h1(1) \<open>p_active (particles g ! i)\<close> ah
      show ?thesis by (simp add: Enemy_advance_def Enemy_advance_v0_def)
    next
      case False
      with Inr r have g1: "g1 = g" using check_hit_miss by simp
      from False h1(1) have "h1 = h" using check_hit_v0_miss by simp
      with g1 False Inr r h1(1) True ah Enemy_move_sim[OF assms True, of nap]
      show ?thesis by (simp add: Enemy_advance_def Enemy_advance_v0_def)
    qed
  qed
next
  case False
  then have ah: "\<not> p_active (particles h ! i)" using psim_fields(7)[OF sim_nth[OF assms(1,2)]] by simp
  from False ah assms(1) Enemy_spawn_sim[OF assms(1,2)] show ?thesis
    by (simp add: Enemy_advance_def Enemy_advance_v0_def sim_globals[OF assms(1)])
qed

lemma advance_sim:
  assumes "sim g h" and "i < length (particles g)"
  shows "rel_sum (=) sim (advance nap i g) (advance_v0 nap i h)"
proof -
  have c: "cls (particles h ! i) = cls (particles g ! i)"
    using psim_fields(1)[OF sim_nth[OF assms]] .
  show ?thesis
  proof (cases "cls (particles g ! i)")
    case Star
    then show ?thesis using Star_advance_sim[OF assms, of nap] by (simp add: advance_def advance_v0_def c)
  next
    case Trail
    then show ?thesis using Trail_advance_sim[OF assms, of nap] by (simp add: advance_def advance_v0_def c)
  next
    case Player
    then show ?thesis using Player_advance_sim[OF assms, of nap] by (simp add: advance_def advance_v0_def c)
  next
    case Bullet
    then show ?thesis using Bullet_advance_sim[OF assms, of nap] by (simp add: advance_def advance_v0_def c)
  next
    case Enemy
    then show ?thesis using Enemy_advance_sim[OF assms Enemy, of nap] by (simp add: advance_def advance_v0_def c)
  qed
qed

lemma Particle_update_sim:
  assumes "sim g h" and "i < length (particles g)"
  shows "sim (Particle_update i g) (Particle_update i h)"
  unfolding Particle_update_def Let_def
  by (simp add: psim_fields[OF sim_nth[OF assms]] sim_globals[OF assms(1)] sim_upd(4)[OF assms(1)])

lemma check_hit_layout:
  assumes "check_hit i g = Inr (hit, g1)"
  shows "layout g1 = layout g"
proof -
  from assms have "g1 = g \<or> (\<exists>b. g1 = reset_at False b g)"
    by (auto simp: check_hit_def split: if_splits option.splits dest!: bullets_loop_result)
  then show ?thesis using reset_at_frame by auto
qed

lemma advance_layout:
  assumes "advance nap i g = Inr g'"
  shows "layout g' = layout g"
proof (cases "cls (particles g ! i)")
  case Star
  with assms show ?thesis using Star_advance_frame[of nap i g] by (auto simp: advance_def)
next
  case Trail
  with assms show ?thesis using Trail_advance_frame[of nap i g] by (auto simp: advance_def)
next
  case Player
  with assms show ?thesis using Player_advance_frame[of nap i g] by (auto simp: advance_def)
next
  case Bullet
  with assms show ?thesis using Bullet_advance_frame[of nap i g] by (auto simp: advance_def)
next
  case Enemy
  with assms have e: "Enemy_advance nap i g = Inr g'" by (simp add: advance_def)
  show ?thesis
  proof (cases "p_active (particles g ! i)")
    case True
    with e obtain hit g1 where c: "check_hit i g = Inr (hit, g1)"
      by (cases "check_hit i g") (auto simp: Enemy_advance_def)
    note l = check_hit_layout[OF c]
    from e True c have "g' = set_particle i (Enemy_reset False (particles g1 ! i)) g1 \<or> g' = Enemy_move nap i g1"
      by (auto simp: Enemy_advance_def split: if_splits)
    then show ?thesis using l Enemy_reset_frame[of i g1] Enemy_move_frame[of nap i g1] by auto
  next
    case False
    with e show ?thesis using Enemy_spawn_frame[of i g]
      by (auto simp: Enemy_advance_def split: if_splits)
  qed
qed

lemma update_loop_sim:
  assumes "sim g h" and "\<forall>j \<in> set js. j < length (particles g)"
  shows "rel_sum (=) sim (update_loop js nap g) (update_loop_v0 js nap h)"
  using assms
proof (induction js arbitrary: g h)
  case Nil
  then show ?case by simp
next
  case (Cons i js)
  then have i: "i < length (particles g)" by simp
  show ?case
  proof (cases "advance nap i g")
    case (Inl e)
    with advance_sim[OF Cons.prems(1) i, of nap] show ?thesis
      by (cases "advance_v0 nap i h") simp_all
  next
    case (Inr g1)
    with advance_sim[OF Cons.prems(1) i, of nap] obtain h1 where
      h1: "advance_v0 nap i h = Inr h1" "sim g1 h1"
      by (cases "advance_v0 nap i h") simp_all
    have len: "length (particles g1) = length (particles g)"
      using layout_length(1)[OF advance_layout[OF Inr]] .
    have s2: "sim (Particle_update i g1) (Particle_update i h1)"
      using Particle_update_sim[OF h1(2)] i len by simp
    have "\<forall>j \<in> set js. j < length (particles (Particle_update i g1))"
      using Cons.prems(2) len Particle_update_rest[of i g1] by simp
    from Cons.IH[OF s2 this] Inr h1(1) show ?thesis by simp
  qed
qed

lemma Game_update_glsl_sim:
  assumes "sim g h"
  shows "rel_sum (=) sim (Game_update_glsl mouse_pos nap g) (Game_update_glsl_v0 mouse_pos nap h)"
proof -
  define g3 where "g3 = (if firing g then g\<lparr>player_x := fst mouse_pos, player_y := snd mouse_pos, fire_delay := fire_delay g - nap, spawn_delay := spawn_delay g - nap\<rparr>
     else g\<lparr>player_x := fst mouse_pos, player_y := snd mouse_pos, spawn_delay := spawn_delay g - nap\<rparr>)"
  define h3 where "h3 = (if firing g then h\<lparr>player_x := fst mouse_pos, player_y := snd mouse_pos, fire_delay := fire_delay g - nap, spawn_delay := spawn_delay g - nap\<rparr>
     else h\<lparr>player_x := fst mouse_pos, player_y := snd mouse_pos, spawn_delay := spawn_delay g - nap\<rparr>)"
  have eg: "Game_update_glsl mouse_pos nap g = PSWidget_update_glsl nap g3"
    by (simp add: Game_update_glsl_def g3_def Let_def)
  have eh: "Game_update_glsl_v0 mouse_pos nap h = PSWidget_update_glsl_v0 nap h3"
    by (simp add: Game_update_glsl_v0_def h3_def Let_def sim_globals[OF assms])
  have s: "sim g3 h3"
    unfolding g3_def h3_def
    using sim_upd(3)[OF sim_upd(2)[OF sim_upd(5)[OF assms]]] sim_upd(3)[OF sim_upd(5)[OF assms]]
    by simp
  have l: "length (particles h3) = length (particles g3)" using sim_length[OF s] .
  show ?thesis
    unfolding eg eh PSWidget_update_glsl_def PSWidget_update_glsl_v0_def l
    by (rule update_loop_sim[OF s]) simp
qed

lemma run_sim:
  assumes "sim g h"
  shows "rel_sum (=) sim (run evs g) (run_v0 evs h)"
  using assms
proof (induction evs arbitrary: g h)
  case Nil
  then show ?case by simp
next
  case (Cons ev evs)
  have hs: "rel_sum (=) sim (handle ev g) (handle_v0 ev h)"
  proof (cases ev)
    case Touch_down
    then show ?thesis
      using sim_upd(2)[OF sim_upd(6)[OF Cons.prems], of 0 True] by (simp add: on_touch_down_def)
  next
    case Touch_up
    then show ?thesis using sim_upd(6)[OF Cons.prems, of False] by (simp add: on_touch_up_def)
  next
    case (Resize w h')
    then show ?thesis using sim_upd(7)[OF Cons.prems] by simp
  next
    case (Tick m nap)
    then show ?thesis using Game_update_glsl_sim[OF Cons.prems, of m nap] by simp
  qed
  show ?case
  proof (cases "handle ev g")
    case (Inl e)
    with hs show ?thesis by (cases "handle_v0 ev h") simp_all
  next
    case (Inr g1)
    with hs obtain h1 where h1: "handle_v0 ev h = Inr h1" "sim g1 h1"
      by (cases "handle_v0 ev h") simp_all
    from Cons.IH[OF h1(2)] Inr h1(1) show ?thesis by simp
  qed
qed

lemma Particle_init_v0_eq: "Particle_init_v0 Cls i g = Particle_init Cls i g"
  by (cases Cls) (simp_all add: Particle_init_v0_def Particle_init_def reset_v0_def reset_def
      Enemy_reset_v0_def Enemy_reset_def)

lemma make_loop_v0_eq: "make_loop_v0 Cls uv js g = make_loop Cls uv js g"
  by (induction js arbitrary: g) (simp_all add: Particle_init_v0_eq Let_def)

lemma make_particles_v0_eq: "make_particles_v0 Cls num g = make_particles Cls num g"
  by (simp add: make_particles_v0_def make_particles_def make_loop_v0_eq cong: option.case_cong)

lemma initialize_v0_eq: "initialize_v0 g = initialize g"
  by (simp add: initialize_v0_def initialize_def make_particles_v0_eq cong: sum.case_cong)

lemma sim_forget_v:
  assumes "sim g h"
  shows "forget_v h = forget_v g"
proof -
  from assms have h: "h = g\<lparr>particles := particles h\<rparr>"
    and l: "list_all2 psim (particles g) (particles h)" by (simp_all add: sim_def)
  have "map (\<lambda>p. p\<lparr>p_v := 0\<rparr>) (particles h) = map (\<lambda>p. p\<lparr>p_v := 0\<rparr>) (particles g)"
  proof (rule nth_equalityI)
    show "length (map (\<lambda>p. p\<lparr>p_v := 0\<rparr>) (particles h)) = length (map (\<lambda>p. p\<lparr>p_v := 0\<rparr>) (particles g))"
      using sim_length[OF assms] by simp
  next
    fix i assume "i < length (map (\<lambda>p. p\<lparr>p_v := 0\<rparr>) (particles h))"
    then have i: "i < length (particles g)" using sim_length[OF assms] by simp
    from sim_nth[OF assms i] obtain w where "particles h ! i = (particles g ! i)\<lparr>p_v := w\<rparr>"
      unfolding psim_def by blast
    then show "map (\<lambda>p. p\<lparr>p_v := 0\<rparr>) (particles h) ! i = map (\<lambda>p. p\<lparr>p_v := 0\<rparr>) (particles g) ! i"
      using i sim_length[OF assms] by simp
  qed
  then show ?thesis unfolding forget_v_def by (subst h) simp
qed

text \<open>
  Claim C10. The program and the variant whose \<open>Enemy.reset\<close> assigns \<open>self.v = 0\<close>
  are run from the same game, through \<open>initialize\<close> and the same events, with the same
  random draws. They raise the same exception or end in states that are equal up to the
  field \<open>v\<close> of the particles: every position, size, plane and active flag, the vertex
  and index buffers, the cooldowns and the position in the random sequence agree. The
  event list is arbitrary, so the two trajectories agree after every event. The proof
  keeps \<open>sim\<close> as an invariant: the field \<open>v\<close> differs only on Enemy objects that are
  not active, \<open>advance\<close> reads it only on an active Enemy, and a spawn assigns it.
\<close>

theorem Enemy_reset_v_unobservable:
  "map_sum id forget_v (play_v0 evs g) = map_sum id forget_v (play evs g)"
proof (cases "initialize g")
  case (Inl e)
  then show ?thesis by (simp add: play_def play_v0_def initialize_v0_eq)
next
  case (Inr g1)
  have "rel_sum (=) sim (run evs g1) (run_v0 evs g1)" by (rule run_sim) simp
  then have "map_sum id forget_v (run_v0 evs g1) = map_sum id forget_v (run evs g1)"
    by (cases "run evs g1"; cases "run_v0 evs g1") (simp_all add: sim_forget_v)
  with Inr show ?thesis by (simp add: play_def play_v0_def initialize_v0_eq)
qed

end
